theory Spec2Isabelle
  imports Main "HOL-Library.Word"
begin

unbundle bit_operations_syntax

section \<open>Data shared by the whole page script\<close>

text \<open>
  The page script \<^verbatim>\<open>src/main.py\<close> works on Python values. A \<^verbatim>\<open>bytes\<close> object is a list
  of 8-bit words; a \<^verbatim>\<open>str\<close> is a list of Unicode code points (natural numbers), so that
  one element is one character as Python counts them; an \<^verbatim>\<open>int\<close> is an unbounded
  \<^typ>\<open>int\<close>. Every exception the script or the standard library can raise on the
  modelled paths is a value of \<open>error\<close>, and a function that can raise returns
  \<open>error + 'a\<close>.
\<close>

type_synonym byte = "8 word"
type_synonym bytes = "byte list"
type_synonym str = "nat list"

datatype error =
    KeyError
  | UnicodeEncodeError
  | UnicodeDecodeError
  | BinasciiError
  | ValueError
  | OverflowError
  | AttributeError
  | IllegalMonthError
  | HttpError

definition ascii :: "string \<Rightarrow> str" where
  "ascii s = map of_char s"

subsection \<open>\<^verbatim>\<open>str.encode("utf-8")\<close> and \<^verbatim>\<open>bytes.decode("utf-8")\<close>\<close>

text \<open>
  One code point becomes one to four bytes. A lone surrogate (U+D800..U+DFFF) cannot
  be encoded: Python raises \<^verbatim>\<open>UnicodeEncodeError\<close>. Numbers from \<open>0x110000\<close> on are
  not code points of any \<^verbatim>\<open>str\<close>; the model reports them as the same error.
\<close>

definition utf8_char :: "nat \<Rightarrow> error + bytes" where
  "utf8_char c =
     (if c < 0x80 then Inr [of_nat c]
      else if c < 0x800 then Inr [of_nat (0xC0 + c div 64), of_nat (0x80 + c mod 64)]
      else if 0xD800 \<le> c \<and> c < 0xE000 then Inl UnicodeEncodeError
      else if c < 0x10000 then
        Inr [of_nat (0xE0 + c div 4096), of_nat (0x80 + c div 64 mod 64),
             of_nat (0x80 + c mod 64)]
      else if c < 0x110000 then
        Inr [of_nat (0xF0 + c div 262144), of_nat (0x80 + c div 4096 mod 64),
             of_nat (0x80 + c div 64 mod 64), of_nat (0x80 + c mod 64)]
      else Inl UnicodeEncodeError)"

fun encode_utf8 :: "str \<Rightarrow> error + bytes" where
  "encode_utf8 [] = Inr []"
| "encode_utf8 (c # cs) =
     (case utf8_char c of
        Inl e \<Rightarrow> Inl e
      | Inr bs \<Rightarrow> (case encode_utf8 cs of Inl e \<Rightarrow> Inl e | Inr rest \<Rightarrow> Inr (bs @ rest)))"

text \<open>
  Decoding is modelled exactly on ASCII input, where every byte is its own code point.
  The only place the script decodes is the output of the base64 encoder, which is
  ASCII (lemma \<open>decode_utf8_urlsafe_b64encode\<close> below); a byte from \<open>0x80\<close> on is
  reported as \<^verbatim>\<open>UnicodeDecodeError\<close> here, although Python would accept it inside a
  well-formed multi-byte sequence.
\<close>

definition decode_utf8 :: "bytes \<Rightarrow> error + str" where
  "decode_utf8 bs =
     (if list_all (\<lambda>b. b < 0x80) bs then Inr (map unat bs) else Inl UnicodeDecodeError)"

section \<open>The standard library's base64 codec\<close>

text \<open>
  \<^verbatim>\<open>base64.urlsafe_b64encode(s)\<close> is \<^verbatim>\<open>binascii.b2a_base64(s, newline=False)\<close> followed by
  the translation of \<^verbatim>\<open>+\<close> and \<^verbatim>\<open>/\<close> to \<^verbatim>\<open>-\<close> and \<^verbatim>\<open>_\<close>;
  \<^verbatim>\<open>base64.urlsafe_b64decode(s)\<close> translates back and calls
  \<^verbatim>\<open>binascii.a2b_base64\<close> in its default, non-strict mode.
\<close>

definition BASE64_PAD :: byte where
  "BASE64_PAD = of_char CHR ''=''"

definition table_b2a_base64 :: bytes where
  "table_b2a_base64 =
     map of_char ''ABCDEFGHIJKLMNOPQRSTUVWXYZabcdefghijklmnopqrstuvwxyz0123456789+/''"

definition b2a :: "nat \<Rightarrow> byte" where
  "b2a n = table_b2a_base64 ! n"

text \<open>
  Three input bytes give four characters of six bits each; a last group of one or two
  bytes is padded with \<^verbatim>\<open>=\<close> to four characters. Every index passed to \<open>b2a\<close> is below 64.
\<close>

fun b2a_base64 :: "bytes \<Rightarrow> bytes" where
  "b2a_base64 (a # b # c # rest) =
     [b2a (unat a div 4), b2a (unat a mod 4 * 16 + unat b div 16),
      b2a (unat b mod 16 * 4 + unat c div 64), b2a (unat c mod 64)] @ b2a_base64 rest"
| "b2a_base64 [a, b] =
     [b2a (unat a div 4), b2a (unat a mod 4 * 16 + unat b div 16),
      b2a (unat b mod 16 * 4), BASE64_PAD]"
| "b2a_base64 [a] =
     [b2a (unat a div 4), b2a (unat a mod 4 * 16), BASE64_PAD, BASE64_PAD]"
| "b2a_base64 [] = []"

text \<open>
  The decoding table: the six-bit value of a character of the standard alphabet, and
  nothing for every other byte (the C table holds a value of 64 or more there).
\<close>

definition table_a2b_base64 :: "byte \<Rightarrow> nat option" where
  "table_a2b_base64 c =
     (if 65 \<le> unat c \<and> unat c \<le> 90 then Some (unat c - 65)
      else if 97 \<le> unat c \<and> unat c \<le> 122 then Some (unat c - 71)
      else if 48 \<le> unat c \<and> unat c \<le> 57 then Some (unat c + 4)
      else if unat c = 43 then Some 62
      else if unat c = 47 then Some 63
      else None)"

text \<open>
  The loop of \<^verbatim>\<open>binascii.a2b_base64\<close> with \<^verbatim>\<open>strict_mode\<close> off (CPython 3.11 and later),
  one call per input byte. Its state is \<^verbatim>\<open>quad_pos\<close> (position in the current group of
  four), \<^verbatim>\<open>leftchar\<close> (bits left over), \<^verbatim>\<open>pads\<close> (pad characters seen in a row) and the
  bytes written so far.
  \<^item> A pad character ends the input (\<^verbatim>\<open>goto done\<close>) when the group holds at least two
    characters and the pads complete it; otherwise it is skipped.
  \<^item> A byte outside the alphabet is skipped (\<^verbatim>\<open>continue\<close>): it is no error.
  \<^item> At the end of input an unfinished group raises \<^verbatim>\<open>binascii.Error\<close>.
  The C code combines the bit fields with shifts and \<^verbatim>\<open>|\<close>; the fields never overlap, so
  the model adds them.
\<close>

fun a2b_loop :: "nat \<Rightarrow> nat \<Rightarrow> nat \<Rightarrow> bytes \<Rightarrow> bytes \<Rightarrow> error + bytes" where
  "a2b_loop quad_pos leftchar pads [] out =
     (if quad_pos \<noteq> 0 then Inl BinasciiError else Inr out)"
| "a2b_loop quad_pos leftchar pads (c # cs) out =
     (if c = BASE64_PAD then
        (if 2 \<le> quad_pos then
           (if 4 \<le> quad_pos + (pads + 1) then Inr out
            else a2b_loop quad_pos leftchar (pads + 1) cs out)
         else a2b_loop quad_pos leftchar pads cs out)
      else
        (case table_a2b_base64 c of
           None \<Rightarrow> a2b_loop quad_pos leftchar pads cs out
         | Some v \<Rightarrow>
             (if quad_pos = 0 then a2b_loop 1 v 0 cs out
              else if quad_pos = 1 then
                a2b_loop 2 (v mod 16) 0 cs (out @ [of_nat (leftchar * 4 + v div 16)])
              else if quad_pos = 2 then
                a2b_loop 3 (v mod 4) 0 cs (out @ [of_nat (leftchar * 16 + v div 4)])
              else a2b_loop 0 0 0 cs (out @ [of_nat (leftchar * 64 + v)]))))"

definition a2b_base64 :: "bytes \<Rightarrow> error + bytes" where
  "a2b_base64 s = a2b_loop 0 0 0 s []"

definition urlsafe_encode_translation :: "byte \<Rightarrow> byte" where
  "urlsafe_encode_translation c =
     (if c = of_char CHR ''+'' then of_char CHR ''-''
      else if c = of_char CHR ''/'' then of_char CHR ''_'' else c)"

definition urlsafe_decode_translation :: "byte \<Rightarrow> byte" where
  "urlsafe_decode_translation c =
     (if c = of_char CHR ''-'' then of_char CHR ''+''
      else if c = of_char CHR ''_'' then of_char CHR ''/'' else c)"

definition urlsafe_b64encode :: "bytes \<Rightarrow> bytes" where
  "urlsafe_b64encode s = map urlsafe_encode_translation (b2a_base64 s)"

definition urlsafe_b64decode :: "bytes \<Rightarrow> error + bytes" where
  "urlsafe_b64decode s = a2b_base64 (map urlsafe_decode_translation s)"

section \<open>The standard library's HMAC-SHA256\<close>

text \<open>
  \<^verbatim>\<open>hmac.new(key, msg, hashlib.sha256).digest()\<close>, following FIPS 180-4 and RFC 2104.
  A 32-bit word is a natural number below \<open>2 ^ 32\<close>, with the wrap-around of every
  addition written out. The round constants and the initial hash value are given in
  decimal.
\<close>

definition add32 :: "nat \<Rightarrow> nat \<Rightarrow> nat" where
  "add32 x y = (x + y) mod 4294967296"

definition rotr :: "nat \<Rightarrow> nat \<Rightarrow> nat" where
  "rotr n x = x div 2 ^ n + (x mod 2 ^ n) * 2 ^ (32 - n)"

definition Ch :: "nat \<Rightarrow> nat \<Rightarrow> nat \<Rightarrow> nat" where
  "Ch x y z = (x AND y) XOR ((4294967295 - x) AND z)"

definition Maj :: "nat \<Rightarrow> nat \<Rightarrow> nat \<Rightarrow> nat" where
  "Maj x y z = (x AND y) XOR (x AND z) XOR (y AND z)"

definition Sigma0 :: "nat \<Rightarrow> nat" where
  "Sigma0 x = rotr 2 x XOR rotr 13 x XOR rotr 22 x"

definition Sigma1 :: "nat \<Rightarrow> nat" where
  "Sigma1 x = rotr 6 x XOR rotr 11 x XOR rotr 25 x"

definition sigma0 :: "nat \<Rightarrow> nat" where
  "sigma0 x = rotr 7 x XOR rotr 18 x XOR x div 2 ^ 3"

definition sigma1 :: "nat \<Rightarrow> nat" where
  "sigma1 x = rotr 17 x XOR rotr 19 x XOR x div 2 ^ 10"

definition K256 :: "nat list" where
  "K256 = [
   1116352408, 1899447441, 3049323471, 3921009573, 961987163, 1508970993, 2453635748, 2870763221,
   3624381080, 310598401, 607225278, 1426881987, 1925078388, 2162078206, 2614888103, 3248222580,
   3835390401, 4022224774, 264347078, 604807628, 770255983, 1249150122, 1555081692, 1996064986,
   2554220882, 2821834349, 2952996808, 3210313671, 3336571891, 3584528711, 113926993, 338241895,
   666307205, 773529912, 1294757372, 1396182291, 1695183700, 1986661051, 2177026350, 2456956037,
   2730485921, 2820302411, 3259730800, 3345764771, 3516065817, 3600352804, 4094571909, 275423344,
   430227734, 506948616, 659060556, 883997877, 958139571, 1322822218, 1537002063, 1747873779,
   1955562222, 2024104815, 2227730452, 2361852424, 2428436474, 2756734187, 3204031479, 3329325298]"

type_synonym hstate = "nat \<times> nat \<times> nat \<times> nat \<times> nat \<times> nat \<times> nat \<times> nat"

definition H256 :: hstate where
  "H256 = (1779033703, 3144134277, 1013904242, 2773480762,
           1359893119, 2600822924, 528734635, 1541459225)"

definition be32 :: "byte \<Rightarrow> byte \<Rightarrow> byte \<Rightarrow> byte \<Rightarrow> nat" where
  "be32 a b c d = unat a * 16777216 + unat b * 65536 + unat c * 256 + unat d"

fun block_words :: "bytes \<Rightarrow> nat list" where
  "block_words (a # b # c # d # rest) = be32 a b c d # block_words rest"
| "block_words _ = []"

text \<open>
  The message schedule is kept newest word first: in \<open>schedule n w\<close> the list \<open>w\<close> is
  \<open>[W\<^sub>t\<^sub>-\<^sub>1, W\<^sub>t\<^sub>-\<^sub>2, \<dots>]\<close>, so that \<open>W\<^sub>t\<^sub>-\<^sub>2\<close>, \<open>W\<^sub>t\<^sub>-\<^sub>7\<close>, \<open>W\<^sub>t\<^sub>-\<^sub>1\<^sub>5\<close> and \<open>W\<^sub>t\<^sub>-\<^sub>1\<^sub>6\<close> are at
  indices 1, 6, 14 and 15.
\<close>

fun schedule :: "nat \<Rightarrow> nat list \<Rightarrow> nat list" where
  "schedule 0 w = w"
| "schedule (Suc n) w =
     schedule n
       (add32 (add32 (add32 (sigma1 (w ! 1)) (w ! 6)) (sigma0 (w ! 14))) (w ! 15) # w)"

fun round256 :: "hstate \<Rightarrow> nat \<times> nat \<Rightarrow> hstate" where
  "round256 (a, b, c, d, e, f, g, h) (k, w) =
     (let t1 = add32 (add32 (add32 (add32 h (Sigma1 e)) (Ch e f g)) k) w;
          t2 = add32 (Sigma0 a) (Maj a b c)
      in (add32 t1 t2, a, b, c, add32 d t1, e, f, g))"

fun add_state :: "hstate \<Rightarrow> hstate \<Rightarrow> hstate" where
  "add_state (a, b, c, d, e, f, g, h) (a', b', c', d', e', f', g', h') =
     (add32 a a', add32 b b', add32 c c', add32 d d',
      add32 e e', add32 f f', add32 g g', add32 h h')"

definition compress :: "hstate \<Rightarrow> bytes \<Rightarrow> hstate" where
  "compress s block =
     add_state s
       (foldl round256 s (zip K256 (rev (schedule 48 (rev (block_words block))))))"

definition be_bytes32 :: "nat \<Rightarrow> bytes" where
  "be_bytes32 x = [of_nat (x div 16777216 mod 256), of_nat (x div 65536 mod 256),
                   of_nat (x div 256 mod 256), of_nat (x mod 256)]"

definition be_bytes64 :: "nat \<Rightarrow> bytes" where
  "be_bytes64 n = be_bytes32 (n div 4294967296 mod 4294967296) @ be_bytes32 (n mod 4294967296)"

text \<open>
  Padding: the byte \<open>0x80\<close>, then zero bytes up to 56 modulo 64, then the length of the
  message in bits as 64 bits, big-endian.
\<close>

definition sha_pad :: "bytes \<Rightarrow> bytes" where
  "sha_pad m = m @ [0x80] @ replicate ((119 - length m mod 64) mod 64) 0
                 @ be_bytes64 (8 * length m)"

fun sha_blocks :: "nat \<Rightarrow> hstate \<Rightarrow> bytes \<Rightarrow> hstate" where
  "sha_blocks 0 s m = s"
| "sha_blocks (Suc n) s m = sha_blocks n (compress s (take 64 m)) (drop 64 m)"

fun digest_bytes :: "hstate \<Rightarrow> bytes" where
  "digest_bytes (a, b, c, d, e, f, g, h) =
     be_bytes32 a @ be_bytes32 b @ be_bytes32 c @ be_bytes32 d @
     be_bytes32 e @ be_bytes32 f @ be_bytes32 g @ be_bytes32 h"

definition sha256 :: "bytes \<Rightarrow> bytes" where
  "sha256 m = digest_bytes (sha_blocks (length (sha_pad m) div 64) H256 (sha_pad m))"

text \<open>
  HMAC: a key longer than the block size of 64 bytes is hashed first; the key is then
  filled with zero bytes to 64 and combined with the inner and outer pad.
\<close>

definition hmac_block_key :: "bytes \<Rightarrow> bytes" where
  "hmac_block_key key =
     (if 64 < length key then sha256 key else key)
       @ replicate (64 - length (if 64 < length key then sha256 key else key)) 0"

definition hmac_sha256 :: "bytes \<Rightarrow> bytes \<Rightarrow> bytes" where
  "hmac_sha256 key msg =
     sha256 (map (\<lambda>b. b XOR 0x5c) (hmac_block_key key)
             @ sha256 (map (\<lambda>b. b XOR 0x36) (hmac_block_key key) @ msg))"

text \<open>
  \<^verbatim>\<open>hmac.compare_digest(a, b)\<close> returns whether the two byte strings are equal. How long
  it takes is outside this model.
\<close>

definition compare_digest :: "bytes \<Rightarrow> bytes \<Rightarrow> bool" where
  "compare_digest a b = (a = b)"

section \<open>The signed state token (\<^verbatim>\<open>generate_state\<close>, \<^verbatim>\<open>verify_state\<close>)\<close>

text \<open>
  \<^verbatim>\<open>st.secrets["google_oauth"]\<close> is a dictionary from key names to text. Looking up a
  missing key raises \<^verbatim>\<open>KeyError\<close>. Both functions read
  \<^verbatim>\<open>st.secrets["google_oauth"]["state_secret"].encode("utf-8")\<close>.
\<close>

type_synonym secrets = "string \<rightharpoonup> str"

definition state_secret_key :: "secrets \<Rightarrow> error + bytes" where
  "state_secret_key google_oauth =
     (case google_oauth ''state_secret'' of
        None \<Rightarrow> Inl KeyError
      | Some s \<Rightarrow> encode_utf8 s)"

text \<open>
  \<^verbatim>\<open>os.urandom(n)\<close> reads the next \<open>n\<close> bytes of the operating system's random source.
  The source is the sequence of all bytes it will ever deliver; a call returns the
  first \<open>n\<close> of them and the rest of the sequence.
\<close>

type_synonym entropy = "nat \<Rightarrow> byte"

definition os_urandom :: "nat \<Rightarrow> entropy \<Rightarrow> bytes \<times> entropy" where
  "os_urandom n rng = (map rng [0..<n], \<lambda>i. rng (i + n))"

definition generate_state :: "secrets \<Rightarrow> entropy \<Rightarrow> error + (str \<times> entropy)" where
  "generate_state google_oauth rng =
     (case state_secret_key google_oauth of
        Inl e \<Rightarrow> Inl e
      | Inr secret_key \<Rightarrow>
          (case os_urandom 16 rng of
             (nonce, rng') \<Rightarrow>
               (case decode_utf8 (urlsafe_b64encode (nonce @ hmac_sha256 secret_key nonce)) of
                  Inl e \<Rightarrow> Inl e
                | Inr state_str \<Rightarrow> Inr (state_str, rng'))))"

text \<open>
  The \<^verbatim>\<open>try\<close> block of \<^verbatim>\<open>verify_state\<close>:
  \<^verbatim>\<open>base64.urlsafe_b64decode(state_str.encode("utf-8"))\<close>.
\<close>

definition decode_state :: "str \<Rightarrow> error + bytes" where
  "decode_state state_str =
     (case encode_utf8 state_str of
        Inl e \<Rightarrow> Inl e
      | Inr s \<Rightarrow> urlsafe_b64decode s)"

text \<open>
  \<^verbatim>\<open>except Exception: return False\<close> turns every error of the \<^verbatim>\<open>try\<close> block into the
  result \<^verbatim>\<open>False\<close>. The secret is read after the length check, outside the \<^verbatim>\<open>try\<close>:
  an error there leaves the function.
\<close>

definition verify_state :: "secrets \<Rightarrow> str \<Rightarrow> error + bool" where
  "verify_state google_oauth state_str =
     (case decode_state state_str of
        Inl e \<Rightarrow> Inr False
      | Inr data \<Rightarrow>
          if length data \<noteq> 48 then Inr False
          else
            (case state_secret_key google_oauth of
               Inl e \<Rightarrow> Inl e
             | Inr secret_key \<Rightarrow>
                 Inr (compare_digest (drop 16 data) (hmac_sha256 secret_key (take 16 data)))))"

text \<open>
  \<open>n\<close> successive calls of \<^verbatim>\<open>generate_state\<close>, each reading the random source where
  the call before left it; the tokens are returned in the order of the calls.
\<close>

fun generate_states :: "nat \<Rightarrow> secrets \<Rightarrow> entropy \<Rightarrow> error + (str list \<times> entropy)" where
  "generate_states 0 google_oauth rng = Inr ([], rng)"
| "generate_states (Suc n) google_oauth rng =
     (case generate_state google_oauth rng of
        Inl e \<Rightarrow> Inl e
      | Inr (state_str, rng') \<Rightarrow>
          (case generate_states n google_oauth rng' of
             Inl e \<Rightarrow> Inl e
           | Inr (rest, rng'') \<Rightarrow> Inr (state_str # rest, rng'')))"

section \<open>The standard library's dates and calendar\<close>

text \<open>
  \<^verbatim>\<open>datetime.date(year, month, day)\<close> first converts its three arguments to C integers
  and raises \<^verbatim>\<open>OverflowError\<close> for a number outside \<open>- 2 ^ 31\<close> to \<open>2 ^ 31 - 1\<close>. It then
  checks the fields and raises \<^verbatim>\<open>ValueError\<close> outside \<^verbatim>\<open>MINYEAR = 1\<close> to
  \<^verbatim>\<open>MAXYEAR = 9999\<close>, outside the months 1 to 12 and outside the days of the month.
\<close>

definition fits_c_int :: "int \<Rightarrow> bool" where
  "fits_c_int n = (- 2147483648 \<le> n \<and> n \<le> 2147483647)"

record date =
  date_year :: int
  date_month :: int
  date_day :: int

definition is_leap :: "int \<Rightarrow> bool" where
  "is_leap y = (y mod 4 = 0 \<and> (y mod 100 \<noteq> 0 \<or> y mod 400 = 0))"

definition mdays :: "int list" where
  "mdays = [0, 31, 28, 31, 30, 31, 30, 31, 31, 30, 31, 30, 31]"

definition days_in_month :: "int \<Rightarrow> int \<Rightarrow> int" where
  "days_in_month y m = (if m = 2 \<and> is_leap y then 29 else mdays ! nat m)"

definition days_before_year :: "int \<Rightarrow> int" where
  "days_before_year y = (y - 1) * 365 + (y - 1) div 4 - (y - 1) div 100 + (y - 1) div 400"

definition days_before_month :: "int \<Rightarrow> int \<Rightarrow> int" where
  "days_before_month y m =
     sum_list (take (nat m) mdays) + (if 2 < m \<and> is_leap y then 1 else 0)"

definition dt_date :: "int \<Rightarrow> int \<Rightarrow> int \<Rightarrow> error + date" where
  "dt_date y m d =
     (if \<not> (fits_c_int y \<and> fits_c_int m \<and> fits_c_int d) then Inl OverflowError
      else if \<not> (1 \<le> y \<and> y \<le> 9999) then Inl ValueError
      else if \<not> (1 \<le> m \<and> m \<le> 12) then Inl ValueError
      else if \<not> (1 \<le> d \<and> d \<le> days_in_month y m) then Inl ValueError
      else Inr \<lparr>date_year = y, date_month = m, date_day = d\<rparr>)"

definition toordinal :: "date \<Rightarrow> int" where
  "toordinal dte =
     days_before_year (date_year dte) + days_before_month (date_year dte) (date_month dte)
       + date_day dte"

text \<open>\<^verbatim>\<open>date.weekday()\<close>: Monday is 0 and Sunday is 6.\<close>

definition date_weekday :: "date \<Rightarrow> int" where
  "date_weekday dte = (toordinal dte + 6) mod 7"

text \<open>
  \<^verbatim>\<open>calendar.weekday\<close> moves a year outside the range of \<^verbatim>\<open>datetime\<close> into it, 400 years
  being a whole number of weeks; \<^verbatim>\<open>calendar.monthrange\<close> raises \<^verbatim>\<open>IllegalMonthError\<close>
  for a month outside 1 to 12.
\<close>

definition calendar_weekday :: "int \<Rightarrow> int \<Rightarrow> int \<Rightarrow> error + int" where
  "calendar_weekday y m d =
     (case dt_date (if \<not> (1 \<le> y \<and> y \<le> 9999) then 2000 + y mod 400 else y) m d of
        Inl e \<Rightarrow> Inl e
      | Inr dte \<Rightarrow> Inr (date_weekday dte))"

definition monthrange :: "int \<Rightarrow> int \<Rightarrow> error + (int \<times> int)" where
  "monthrange y m =
     (if \<not> (1 \<le> m \<and> m \<le> 12) then Inl IllegalMonthError
      else
        (case calendar_weekday y m 1 of
           Inl e \<Rightarrow> Inl e
         | Inr day1 \<Rightarrow> Inr (day1, mdays ! nat m + (if m = 2 \<and> is_leap y then 1 else 0))))"

text \<open>
  \<^verbatim>\<open>Calendar(firstweekday).itermonthdays(year, month)\<close>: zeros for the days of the first
  week before day 1, the day numbers, zeros for the days of the last week after the
  last day.
\<close>

definition itermonthdays :: "int \<Rightarrow> int \<Rightarrow> int \<Rightarrow> error + int list" where
  "itermonthdays firstweekday y m =
     (case monthrange y m of
        Inl e \<Rightarrow> Inl e
      | Inr (day1, ndays) \<Rightarrow>
          Inr (replicate (nat ((day1 - firstweekday) mod 7)) 0
               @ map int [1..<Suc (nat ndays)]
               @ replicate (nat ((firstweekday - day1 - ndays) mod 7)) 0))"

text \<open>
  \<^verbatim>\<open>[days[i:i+7] for i in range(0, len(days), 7)]\<close>: the list cut into slices of seven,
  the last one shorter when the length is no multiple of seven.
\<close>

function slices7 :: "'a list \<Rightarrow> 'a list list" where
  "slices7 days = (if days = [] then [] else take 7 days # slices7 (drop 7 days))"
  by pat_completeness auto
termination
  by (relation "measure length") auto

declare slices7.simps [simp del]

definition monthdayscalendar :: "int \<Rightarrow> int \<Rightarrow> int \<Rightarrow> error + int list list" where
  "monthdayscalendar firstweekday y m =
     (case itermonthdays firstweekday y m of
        Inl e \<Rightarrow> Inl e
      | Inr days \<Rightarrow> Inr (slices7 days))"

section \<open>Text of numbers\<close>

text \<open>
  \<^verbatim>\<open>str(n)\<close> and the f-string \<^verbatim>\<open>f"{n}"\<close> of an \<^verbatim>\<open>int\<close>: its decimal digits, after a minus
  sign when it is negative. The code point of the digit \<open>d\<close> is \<open>48 + d\<close>.
\<close>

function nat_digits :: "nat \<Rightarrow> str" where
  "nat_digits n = (if n < 10 then [48 + n] else nat_digits (n div 10) @ [48 + n mod 10])"
  by pat_completeness auto
termination
  by (relation "measure id") auto

declare nat_digits.simps [simp del]

definition str_of_int :: "int \<Rightarrow> str" where
  "str_of_int n = (if n < 0 then 45 # nat_digits (nat (- n)) else nat_digits (nat n))"

text \<open>The format \<^verbatim>\<open>%0wd\<close> of a number that is not negative.\<close>

definition zero_pad :: "nat \<Rightarrow> int \<Rightarrow> str" where
  "zero_pad w n = replicate (w - length (nat_digits (nat n))) 48 @ nat_digits (nat n)"

text \<open>
  \<^verbatim>\<open>int(s)\<close> in base 10 works in two steps. First the text is brought to ASCII
  (\<^verbatim>\<open>_PyUnicode_TransformDecimalAndSpaceToASCII\<close>): a code point below 127 stays, any
  other white space becomes a space, any other decimal digit becomes the ASCII digit
  of its value, and everything else becomes \<^verbatim>\<open>?\<close>. (CPython cuts the text after the
  first \<^verbatim>\<open>?\<close>; as a \<^verbatim>\<open>?\<close> makes the second step fail whatever follows, the model keeps the
  rest.) Then \<^verbatim>\<open>PyLong_FromString\<close> reads the number: ASCII white space around it is
  dropped, one sign may come first, and between two digits there may be one
  underscore. Everything else raises \<^verbatim>\<open>ValueError\<close>.

  The decimal digits of Unicode come in runs of ten, from the digit zero to the digit
  nine; \<open>decimal_zeros\<close> lists the zero of each run beyond ASCII in Unicode 14.0, the
  version of CPython 3.11. The limit on the number of digits
  (\<^verbatim>\<open>sys.set_int_max_str_digits\<close>, 4300 by default) is not modelled.
\<close>

definition decimal_zeros :: "nat list" where
  "decimal_zeros =
     [1632, 1776, 1984, 2406, 2534, 2662, 2790, 2918, 3046, 3174, 3302, 3430, 3558, 3664,
      3792, 3872, 4160, 4240, 6112, 6160, 6470, 6608, 6784, 6800, 6992, 7088, 7232, 7248,
      42528, 43216, 43264, 43472, 43504, 43600, 44016, 65296, 66720, 68912, 69734, 69872,
      69942, 70096, 70384, 70736, 70864, 71248, 71360, 71472, 71904, 72016, 72784, 73040,
      73120, 92768, 92864, 93008, 120782, 120792, 120802, 120812, 120822, 123200, 123632,
      125264, 130032]"

definition to_decimal :: "nat \<Rightarrow> nat option" where
  "to_decimal c =
     (case filter (\<lambda>z. z \<le> c \<and> c < z + 10) decimal_zeros of
        [] \<Rightarrow> None
      | z # _ \<Rightarrow> Some (c - z))"

definition is_unicode_space :: "nat \<Rightarrow> bool" where
  "is_unicode_space c =
     (c = 0x85 \<or> c = 0xA0 \<or> c = 0x1680 \<or> (0x2000 \<le> c \<and> c \<le> 0x200A) \<or> c = 0x2028
      \<or> c = 0x2029 \<or> c = 0x202F \<or> c = 0x205F \<or> c = 0x3000)"

definition to_ascii :: "nat \<Rightarrow> nat" where
  "to_ascii c =
     (if c < 127 then c
      else if is_unicode_space c then 32
      else (case to_decimal c of None \<Rightarrow> 63 | Some d \<Rightarrow> 48 + d))"

definition is_space :: "nat \<Rightarrow> bool" where
  "is_space c = (c = 32 \<or> (9 \<le> c \<and> c \<le> 13))"

definition is_digit :: "nat \<Rightarrow> bool" where
  "is_digit c = (48 \<le> c \<and> c \<le> 57)"

definition strip :: "str \<Rightarrow> str" where
  "strip s = rev (dropWhile is_space (rev (dropWhile is_space s)))"

fun digits_value :: "nat \<Rightarrow> str \<Rightarrow> nat option" where
  "digits_value acc [] = Some acc"
| "digits_value acc (c # cs) =
     (if is_digit c then digits_value (acc * 10 + (c - 48)) cs
      else if c = 95 \<and> cs \<noteq> [] \<and> is_digit (hd cs) then digits_value acc cs
      else None)"

definition long_from_string :: "str \<Rightarrow> error + int" where
  "long_from_string s =
     (case strip s of
        [] \<Rightarrow> Inl ValueError
      | c # cs \<Rightarrow>
          (if (if c = 45 \<or> c = 43 then cs else c # cs) = [] then Inl ValueError
           else if \<not> is_digit (hd (if c = 45 \<or> c = 43 then cs else c # cs))
             then Inl ValueError
           else
             (case digits_value 0 (if c = 45 \<or> c = 43 then cs else c # cs) of
                None \<Rightarrow> Inl ValueError
              | Some n \<Rightarrow> Inr (if c = 45 then - int n else int n))))"

definition py_int :: "str \<Rightarrow> error + int" where
  "py_int s = long_from_string (map to_ascii s)"

text \<open>\<^verbatim>\<open>s.split(sep)\<close> with a separator of one character.\<close>

fun split_on :: "nat \<Rightarrow> str \<Rightarrow> str list" where
  "split_on sep [] = [[]]"
| "split_on sep (c # cs) =
     (if c = sep then [] # split_on sep cs
      else (c # hd (split_on sep cs)) # tl (split_on sep cs))"

section \<open>Days with events (\<^verbatim>\<open>fetch_month_event_days\<close>)\<close>

text \<open>
  An event of the provider's answer is a dictionary read from JSON; the script reads
  its key \<^verbatim>\<open>start\<close>, a dictionary with the key \<^verbatim>\<open>date\<close> (an all-day event) or
  \<^verbatim>\<open>dateTime\<close>. A key is missing, or holds \<^verbatim>\<open>null\<close> (Python's \<^verbatim>\<open>None\<close>), or holds a value of
  its type: an object for \<^verbatim>\<open>start\<close>, text for the two dates. \<^verbatim>\<open>d.get(key)\<close> is \<^verbatim>\<open>None\<close> for
  a missing key and for \<^verbatim>\<open>null\<close>. The request the script sends is the record
  \<open>events_query\<close>; the service answers with an error or with a response whose key
  \<^verbatim>\<open>items\<close> may be missing.
\<close>

datatype 'a field = Missing | Null | Present 'a

definition field_get :: "'a field \<Rightarrow> 'a option" where
  "field_get f = (case f of Missing \<Rightarrow> None | Null \<Rightarrow> None | Present v \<Rightarrow> Some v)"

record start_info =
  start_date :: "str field"
  start_dateTime :: "str field"

record event =
  event_start :: "start_info field"

record events_query =
  calendarId :: str
  timeMin :: str
  timeMax :: str
  singleEvents :: bool
  orderBy :: str

type_synonym service = "events_query \<Rightarrow> error + event list option"

text \<open>
  \<^verbatim>\<open>datetime.combine(d, dt.time(0, 0), tzinfo=timezone.utc).isoformat()\<close>: the date, the
  time of day 00:00:00 and the offset of UTC.
\<close>

definition isoformat_utc_midnight :: "date \<Rightarrow> str" where
  "isoformat_utc_midnight dte =
     zero_pad 4 (date_year dte) @ ascii ''-'' @ zero_pad 2 (date_month dte) @ ascii ''-''
       @ zero_pad 2 (date_day dte) @ ascii ''T00:00:00+00:00''"

text \<open>Lines 127 to 144: the two bounds and the request built from them.\<close>

definition month_query :: "int \<Rightarrow> int \<Rightarrow> error + events_query" where
  "month_query y m =
     (case dt_date y m 1 of
        Inl e \<Rightarrow> Inl e
      | Inr start \<Rightarrow>
          (case (if m = 12 then dt_date (y + 1) 1 1 else dt_date y (m + 1) 1) of
             Inl e \<Rightarrow> Inl e
           | Inr end' \<Rightarrow>
               Inr \<lparr>calendarId = ascii ''primary'',
                    timeMin = isoformat_utc_midnight start,
                    timeMax = isoformat_utc_midnight end',
                    singleEvents = True,
                    orderBy = ascii ''startTime''\<rparr>))"

text \<open>
  \<^verbatim>\<open>start_info = event.get("start", {})\<close>: the empty dictionary for a missing key, and
  \<^verbatim>\<open>None\<close> for \<^verbatim>\<open>null\<close>, on which the next line's \<^verbatim>\<open>start_info.get\<close> raises
  \<^verbatim>\<open>AttributeError\<close>, outside the \<^verbatim>\<open>try\<close>. Then
  \<^verbatim>\<open>start_info.get("date") or start_info.get("dateTime")\<close>, and \<^verbatim>\<open>if not date_str: continue\<close>:
  a missing or empty \<^verbatim>\<open>date\<close> gives way to \<^verbatim>\<open>dateTime\<close>, and a missing or empty
  result is no date text at all.
\<close>

definition event_date_str :: "event \<Rightarrow> error + str option" where
  "event_date_str ev =
     (case event_start ev of
        Null \<Rightarrow> Inl AttributeError
      | Missing \<Rightarrow> Inr None
      | Present si \<Rightarrow>
          (case (if field_get (start_date si) = None \<or> field_get (start_date si) = Some []
                 then field_get (start_dateTime si)
                 else field_get (start_date si)) of
             None \<Rightarrow> Inr None
           | Some date_str \<Rightarrow> if date_str = [] then Inr None else Inr (Some date_str)))"

text \<open>
  The \<^verbatim>\<open>try\<close> block: \<^verbatim>\<open>y, m, d = map(int, date_str[:10].split("-"))\<close>. It succeeds when
  there are exactly three parts and each is a number; it yields the third.
\<close>

definition parse_day :: "str \<Rightarrow> error + int" where
  "parse_day date_str =
     (case split_on 45 (take 10 date_str) of
        [ys, ms, ds] \<Rightarrow>
          (case py_int ys of
             Inl e \<Rightarrow> Inl e
           | Inr y \<Rightarrow>
               (case py_int ms of
                  Inl e \<Rightarrow> Inl e
                | Inr m \<Rightarrow> (case py_int ds of Inl e \<Rightarrow> Inl e | Inr d \<Rightarrow> Inr d)))
      | _ \<Rightarrow> Inl ValueError)"

text \<open>
  The loop over the items, with the set \<^verbatim>\<open>days\<close> it fills. An error of the \<^verbatim>\<open>try\<close> block
  goes on to the next event; an error outside it ends the loop and the function.
\<close>

fun collect_days :: "event list \<Rightarrow> int set \<Rightarrow> error + int set" where
  "collect_days [] days = Inr days"
| "collect_days (ev # items) days =
     (case event_date_str ev of
        Inl e \<Rightarrow> Inl e
      | Inr None \<Rightarrow> collect_days items days
      | Inr (Some date_str) \<Rightarrow>
          (case parse_day date_str of
             Inl e \<Rightarrow> collect_days items days
           | Inr d \<Rightarrow> collect_days items (insert d days)))"

definition fetch_month_event_days :: "service option \<Rightarrow> int \<Rightarrow> int \<Rightarrow> error + int set" where
  "fetch_month_event_days svc y m =
     (case svc of
        None \<Rightarrow> Inr {}
      | Some execute \<Rightarrow>
          (case month_query y m of
             Inl e \<Rightarrow> Inl e
           | Inr q \<Rightarrow>
               (case execute q of
                  Inl e \<Rightarrow> Inl e
                | Inr events_result \<Rightarrow>
                    collect_days (case events_result of None \<Rightarrow> [] | Some items \<Rightarrow> items) {})))"

section \<open>The calendar on the page\<close>

text \<open>
  The session state the calendar uses, and one run of the two navigation buttons
  (lines 227 to 250). \<^verbatim>\<open>month\<close> is read once before both buttons; each button that was
  clicked changes the session state.
\<close>

record session_state =
  cal_year :: int
  cal_month :: int
  selected_date :: date

definition month_buttons :: "bool \<Rightarrow> bool \<Rightarrow> session_state \<Rightarrow> session_state" where
  "month_buttons prev_clicked next_clicked st =
     (let month = cal_month st;
          st1 = (if prev_clicked then
                   (if month = 1 then st\<lparr>cal_month := 12, cal_year := cal_year st - 1\<rparr>
                    else st\<lparr>cal_month := cal_month st - 1\<rparr>)
                 else st)
      in (if next_clicked then
            (if month = 12 then st1\<lparr>cal_month := 1, cal_year := cal_year st1 + 1\<rparr>
             else st1\<lparr>cal_month := cal_month st1 + 1\<rparr>)
          else st1))"

text \<open>Lines 280 to 284: the label of a day's button. The marker is a space and U+25CF.\<close>

definition day_label :: "int \<Rightarrow> date \<Rightarrow> date \<Rightarrow> int set \<Rightarrow> str" where
  "day_label d date_obj selected days_with_events =
     (let label = str_of_int d;
          label = (if date_obj = selected then ascii ''['' @ label @ ascii '']'' else label);
          label = (if d \<in> days_with_events then label @ [32, 0x25CF] else label)
      in label)"

text \<open>
  One cell of the grid (lines 274 to 284): nothing for the empty cell 0, otherwise the
  label of the day, after \<^verbatim>\<open>dt.date(year, month, day)\<close> has been built.
\<close>

definition cell_label :: "session_state \<Rightarrow> int set \<Rightarrow> int \<Rightarrow> int \<Rightarrow> int \<Rightarrow> error + str option" where
  "cell_label st days_with_events y m d =
     (if d = 0 then Inr None
      else
        (case dt_date y m d of
           Inl e \<Rightarrow> Inl e
         | Inr date_obj \<Rightarrow> Inr (Some (day_label d date_obj (selected_date st) days_with_events))))"

section \<open>Notions the properties are stated with\<close>

text \<open>
  A token on its way from \<^verbatim>\<open>generate_state\<close> to the decoding loop of \<^verbatim>\<open>verify_state\<close>
  passes through both translations.
\<close>

definition both_translations :: "byte \<Rightarrow> byte" where
  "both_translations c = urlsafe_decode_translation (urlsafe_encode_translation c)"

text \<open>Bit \<open>k\<close> of byte \<open>i\<close> inverted.\<close>

definition flip_bit_at :: "nat \<Rightarrow> nat \<Rightarrow> bytes \<Rightarrow> bytes" where
  "flip_bit_at i k data = data[i := data ! i XOR push_bit k 1]"

text \<open>
  Text that is URL-safe base64 in the sense of RFC 4648, section 5: groups of four
  characters from \<^verbatim>\<open>A-Z a-z 0-9 - _\<close>, of which the last may end in one or two \<^verbatim>\<open>=\<close>.
\<close>

definition is_urlsafe_char :: "nat \<Rightarrow> bool" where
  "is_urlsafe_char c =
     ((65 \<le> c \<and> c \<le> 90) \<or> (97 \<le> c \<and> c \<le> 122) \<or> (48 \<le> c \<and> c \<le> 57) \<or> c = 45 \<or> c = 95)"

definition valid_urlsafe_base64 :: "str \<Rightarrow> bool" where
  "valid_urlsafe_base64 s =
     (length s mod 4 = 0
      \<and> list_all is_urlsafe_char (takeWhile (\<lambda>c. c \<noteq> 61) s)
      \<and> list_all (\<lambda>c. c = 61) (dropWhile (\<lambda>c. c \<noteq> 61) s)
      \<and> length (dropWhile (\<lambda>c. c \<noteq> 61) s) \<le> 2)"

text \<open>
  The characters the decoder reads: the base64 characters of both alphabets, and with
  them the pad character \<^verbatim>\<open>=\<close>. The code points that UTF-8 can encode.
\<close>

definition is_base64_char :: "nat \<Rightarrow> bool" where
  "is_base64_char c =
     ((65 \<le> c \<and> c \<le> 90) \<or> (97 \<le> c \<and> c \<le> 122) \<or> (48 \<le> c \<and> c \<le> 57)
      \<or> c = 43 \<or> c = 47 \<or> c = 45 \<or> c = 95)"

definition is_token_char :: "nat \<Rightarrow> bool" where
  "is_token_char c = (is_base64_char c \<or> c = 61)"

definition is_scalar_value :: "nat \<Rightarrow> bool" where
  "is_scalar_value c = (c < 0xD800 \<or> (0xE000 \<le> c \<and> c < 0x110000))"

text \<open>A byte the decoding loop does not skip.\<close>

definition is_read :: "byte \<Rightarrow> bool" where
  "is_read b = (b = BASE64_PAD \<or> table_a2b_base64 b \<noteq> None)"

text \<open>The bytes the loop has written in the group it is in, at position \<open>quad_pos\<close>.\<close>

definition written_in_group :: "nat \<Rightarrow> nat" where
  "written_in_group quad_pos = (if quad_pos \<le> 1 then 0 else quad_pos - 1)"

subsection \<open>Concrete inputs\<close>

text \<open>
  A configuration with the secret \<^verbatim>\<open>s3cr3t-key\<close>, a random source that delivers the bytes
  0, 1, 2, \<dots>, the token \<^verbatim>\<open>generate_state\<close> makes from them, the 48 bytes it encodes, the
  same bytes with the lowest bit of the first tag byte inverted, and the token with a
  character appended that belongs to no base64 alphabet.
\<close>

definition example_secrets :: secrets where
  "example_secrets = [''state_secret'' \<mapsto> ascii ''s3cr3t-key'']"

definition example_rng :: entropy where
  "example_rng i = of_nat i"

definition example_token :: str where
  "example_token = ascii ''AAECAwQFBgcICQoLDA0OD9elMOkPf18T6QlDc81Z86oLvdr0RjrwcDJfF1FBrGtD''"

definition example_data :: bytes where
  "example_data =
     [0, 1, 2, 3, 4, 5, 6, 7, 8, 9, 10, 11, 12, 13, 14, 15,
      215, 165, 48, 233, 15, 127, 95, 19, 233, 9, 67, 115, 205, 89, 243, 170,
      11, 189, 218, 244, 70, 58, 240, 112, 50, 95, 23, 81, 65, 172, 107, 67]"

definition tampered_token :: str where
  "tampered_token = ascii ''AAECAwQFBgcICQoLDA0OD9alMOkPf18T6QlDc81Z86oLvdr0RjrwcDJfF1FBrGtD''"

definition padded_token :: str where
  "padded_token = ascii ''AAECAwQFBgcICQoLDA0OD9elMOkPf18T6QlDc81Z86oLvdr0RjrwcDJfF1FBrGtD!''"

text \<open>
  A provider that answers every request with one all-day event starting on 27 February
  2024 (when asked for March 2024: an event that lasts into March), and a provider
  that answers with three events starting on 5 March, again on 5 March and on 31 March
  2024.
\<close>

definition day_event :: "string \<Rightarrow> event" where
  "day_event s =
     \<lparr>event_start = Present \<lparr>start_date = Present (ascii s), start_dateTime = Missing\<rparr>\<rparr>"

definition timed_event :: "string \<Rightarrow> event" where
  "timed_event s =
     \<lparr>event_start = Present \<lparr>start_date = Missing, start_dateTime = Present (ascii s)\<rparr>\<rparr>"

definition february_service :: service where
  "february_service q = Inr (Some [day_event ''2024-02-27''])"

definition march_service :: service where
  "march_service q =
     Inr (Some [day_event ''2024-03-05'', timed_event ''2024-03-05T09:00:00Z'',
                day_event ''2024-03-31''])"

text \<open>
  A provider that answers with one event whose start text has the form of a date and
  names no day of the calendar.
\<close>

definition thirteenth_month_service :: service where
  "thirteenth_month_service q = Inr (Some [day_event ''2024-13-99''])"

definition example_state :: session_state where
  "example_state =
     \<lparr>cal_year = 2024, cal_month = 1,
      selected_date = \<lparr>date_year = 2024, date_month = 1, date_day = 15\<rparr>\<rparr>"

section \<open>Properties of the base64 codec\<close>

lemma byte_bound: "unat (b :: byte) < 256"
  using unsigned_less [of b, where 'a = nat] by simp

lemma b2a_table:
  "list_all (\<lambda>(n, c). table_a2b_base64 c = Some n \<and> c \<noteq> BASE64_PAD \<and> c < 0x80
      \<and> urlsafe_decode_translation (urlsafe_encode_translation c) = c
      \<and> urlsafe_encode_translation c < 0x80) (enumerate 0 table_b2a_base64)"
  unfolding table_b2a_base64_def table_a2b_base64_def BASE64_PAD_def
    urlsafe_decode_translation_def urlsafe_encode_translation_def
  by simp

lemma b2a_enumerate: "n < 64 \<Longrightarrow> (n, b2a n) \<in> set (enumerate 0 table_b2a_base64)"
  by (simp add: in_set_enumerate_eq b2a_def) (simp add: table_b2a_base64_def)

lemma b2a_props:
  assumes "n < 64"
  shows "table_a2b_base64 (b2a n) = Some n" "b2a n \<noteq> BASE64_PAD" "b2a n < 0x80"
        "urlsafe_decode_translation (urlsafe_encode_translation (b2a n)) = b2a n"
        "urlsafe_encode_translation (b2a n) < 0x80"
  using b2a_table b2a_enumerate [OF assms] unfolding list_all_iff by blast+

lemma div4_bound: "unat (a :: byte) div 4 < 64"
  using byte_bound [of a] by simp

lemma idx_bounds:
  "unat (a :: byte) mod 4 * 16 + unat (b :: byte) div 16 < 64"
  "unat (b :: byte) mod 16 * 4 + unat (c :: byte) div 64 < 64"
  "unat (a :: byte) mod 4 * 16 < 64"
  "unat (b :: byte) mod 16 * 4 < 64"
  "unat (c :: byte) mod 64 < 64"
  using byte_bound [of a] byte_bound [of b] byte_bound [of c] by simp_all

lemma translations_pad [simp]: "urlsafe_decode_translation (urlsafe_encode_translation BASE64_PAD) = BASE64_PAD"
  by (simp add: urlsafe_decode_translation_def urlsafe_encode_translation_def BASE64_PAD_def)

lemma byte_recombine:
  "(of_nat (unat a div 4 * 4 + (unat a mod 4 * 16 + unat b div 16) div 16) :: byte) = a"
  "(of_nat ((unat a mod 4 * 16 + unat b div 16) mod 16 * 16 + (unat b mod 16 * 4 + unat c div 64) div 4) :: byte) = b"
  "(of_nat ((unat b mod 16 * 4 + unat c div 64) mod 4 * 64 + unat c mod 64) :: byte) = c"
  "(of_nat (unat a div 4 * 4 + (unat a mod 4 * 16) div 16) :: byte) = a"
  "(of_nat ((unat a mod 4 * 16 + unat b div 16) mod 16 * 16 + (unat b mod 16 * 4) div 4) :: byte) = b"
proof -
  have a: "unat a div 4 * 4 + (unat a mod 4 * 16 + unat b div 16) div 16 = unat a"
    using byte_bound [of b] by simp
  have b: "(unat a mod 4 * 16 + unat b div 16) mod 16 * 16 + (unat b mod 16 * 4 + unat c div 64) div 4 = unat b"
    using byte_bound [of b] byte_bound [of c] by simp
  have c: "(unat b mod 16 * 4 + unat c div 64) mod 4 * 64 + unat c mod 64 = unat c"
    using byte_bound [of c] by simp
  have a': "unat a div 4 * 4 + (unat a mod 4 * 16) div 16 = unat a"
    by simp
  have b': "(unat a mod 4 * 16 + unat b div 16) mod 16 * 16 + (unat b mod 16 * 4) div 4 = unat b"
    using byte_bound [of b] by simp
  show "(of_nat (unat a div 4 * 4 + (unat a mod 4 * 16 + unat b div 16) div 16) :: byte) = a"
    by (subst a) simp
  show "(of_nat ((unat a mod 4 * 16 + unat b div 16) mod 16 * 16 + (unat b mod 16 * 4 + unat c div 64) div 4) :: byte) = b"
    by (subst b) simp
  show "(of_nat ((unat b mod 16 * 4 + unat c div 64) mod 4 * 64 + unat c mod 64) :: byte) = c"
    by (subst c) simp
  show "(of_nat (unat a div 4 * 4 + (unat a mod 4 * 16) div 16) :: byte) = a"
    by (subst a') simp
  show "(of_nat ((unat a mod 4 * 16 + unat b div 16) mod 16 * 16 + (unat b mod 16 * 4) div 4) :: byte) = b"
    by (subst b') simp
qed

lemma a2b_loop_group:
  assumes "table_a2b_base64 c1 = Some v1" "table_a2b_base64 c2 = Some v2"
    and "c1 \<noteq> BASE64_PAD" "c2 \<noteq> BASE64_PAD"
  shows "a2b_loop 0 l p (c1 # c2 # cs) out =
           a2b_loop 2 (v2 mod 16) 0 cs (out @ [of_nat (v1 * 4 + v2 div 16)])"
  using assms by simp

lemma a2b_loop_third:
  assumes "table_a2b_base64 c3 = Some v3" and "c3 \<noteq> BASE64_PAD"
  shows "a2b_loop 2 l p (c3 # cs) out = a2b_loop 3 (v3 mod 4) 0 cs (out @ [of_nat (l * 16 + v3 div 4)])"
  using assms by simp

lemma a2b_loop_fourth:
  assumes "table_a2b_base64 c4 = Some v4" and "c4 \<noteq> BASE64_PAD"
  shows "a2b_loop 3 l p (c4 # cs) out = a2b_loop 0 0 0 cs (out @ [of_nat (l * 64 + v4)])"
  using assms by simp

lemma a2b_loop_pads:
  "a2b_loop 3 l 0 (BASE64_PAD # cs) out = Inr out"
  "a2b_loop 2 l 0 (BASE64_PAD # BASE64_PAD # cs) out = Inr out"
  by simp_all

lemma tr_b2a: "n < 64 \<Longrightarrow> both_translations (b2a n) = b2a n"
  by (simp add: both_translations_def b2a_props)

lemma tr_PAD: "both_translations BASE64_PAD = BASE64_PAD"
  by (simp add: both_translations_def)

lemma a2b_loop_b2a_base64:
  "a2b_loop 0 0 0 (map both_translations (b2a_base64 d)) out = Inr (out @ d)"
proof (induction d arbitrary: out rule: b2a_base64.induct)
  case (1 a b c rest)
  define v1 where "v1 = unat a div 4"
  define v2 where "v2 = unat a mod 4 * 16 + unat b div 16"
  define v3 where "v3 = unat b mod 16 * 4 + unat c div 64"
  define v4 where "v4 = unat c mod 64"
  have bnd: "v1 < 64" "v2 < 64" "v3 < 64" "v4 < 64"
    unfolding v1_def v2_def v3_def v4_def by (rule div4_bound idx_bounds)+
  have enc: "map both_translations (b2a_base64 (a # b # c # rest)) =
               b2a v1 # b2a v2 # b2a v3 # b2a v4 # map both_translations (b2a_base64 rest)"
    using bnd unfolding v1_def v2_def v3_def v4_def by (simp add: tr_b2a)
  have bytes: "(of_nat (v1 * 4 + v2 div 16) :: byte) = a"
    "(of_nat (v2 mod 16 * 16 + v3 div 4) :: byte) = b"
    "(of_nat (v3 mod 4 * 64 + v4) :: byte) = c"
    unfolding v1_def v2_def v3_def v4_def by (rule byte_recombine)+
  have "a2b_loop 0 0 0 (map both_translations (b2a_base64 (a # b # c # rest))) out =
          a2b_loop 0 0 0 (map both_translations (b2a_base64 rest)) (((out @ [a]) @ [b]) @ [c])"
    unfolding enc
    by (simp only: a2b_loop_group [OF b2a_props(1) [OF bnd(1)] b2a_props(1) [OF bnd(2)]
            b2a_props(2) [OF bnd(1)] b2a_props(2) [OF bnd(2)]]
          a2b_loop_third [OF b2a_props(1) [OF bnd(3)] b2a_props(2) [OF bnd(3)]]
          a2b_loop_fourth [OF b2a_props(1) [OF bnd(4)] b2a_props(2) [OF bnd(4)]] bytes)
  then show ?case by (simp add: "1.IH")
next
  case (2 a b)
  define v1 where "v1 = unat a div 4"
  define v2 where "v2 = unat a mod 4 * 16 + unat b div 16"
  define v3 where "v3 = unat b mod 16 * 4"
  have bnd: "v1 < 64" "v2 < 64" "v3 < 64"
    unfolding v1_def v2_def v3_def by (rule div4_bound idx_bounds)+
  have enc: "map both_translations (b2a_base64 [a, b]) = b2a v1 # b2a v2 # b2a v3 # BASE64_PAD # []"
    using bnd unfolding v1_def v2_def v3_def by (simp add: tr_b2a tr_PAD)
  have bytes: "(of_nat (v1 * 4 + v2 div 16) :: byte) = a"
    "(of_nat (v2 mod 16 * 16 + v3 div 4) :: byte) = b"
    unfolding v1_def v2_def v3_def by (rule byte_recombine)+
  have "a2b_loop 0 0 0 (map both_translations (b2a_base64 [a, b])) out = Inr ((out @ [a]) @ [b])"
    unfolding enc
    by (simp only: a2b_loop_group [OF b2a_props(1) [OF bnd(1)] b2a_props(1) [OF bnd(2)]
            b2a_props(2) [OF bnd(1)] b2a_props(2) [OF bnd(2)]]
          a2b_loop_third [OF b2a_props(1) [OF bnd(3)] b2a_props(2) [OF bnd(3)]]
          a2b_loop_pads bytes)
  then show ?case by simp
next
  case (3 a)
  define v1 where "v1 = unat a div 4"
  define v2 where "v2 = unat a mod 4 * 16"
  have bnd: "v1 < 64" "v2 < 64"
    unfolding v1_def v2_def by (rule div4_bound idx_bounds)+
  have enc: "map both_translations (b2a_base64 [a]) = b2a v1 # b2a v2 # BASE64_PAD # BASE64_PAD # []"
    using bnd unfolding v1_def v2_def by (simp add: tr_b2a tr_PAD)
  have bytes: "(of_nat (v1 * 4 + v2 div 16) :: byte) = a"
    unfolding v1_def v2_def by (rule byte_recombine)
  have "a2b_loop 0 0 0 (map both_translations (b2a_base64 [a])) out = Inr (out @ [a])"
    unfolding enc
    by (simp only: a2b_loop_group [OF b2a_props(1) [OF bnd(1)] b2a_props(1) [OF bnd(2)]
            b2a_props(2) [OF bnd(1)] b2a_props(2) [OF bnd(2)]]
          a2b_loop_pads bytes)
  then show ?case by simp
next
  case 4
  show ?case by simp
qed

lemma urlsafe_b64_roundtrip: "urlsafe_b64decode (urlsafe_b64encode d) = Inr d"
  using a2b_loop_b2a_base64 [of d "[]"]
  by (simp add: urlsafe_b64decode_def urlsafe_b64encode_def a2b_base64_def both_translations_def [abs_def] comp_def)

lemma b2a_base64_ascii: "list_all (\<lambda>b. b < 0x80) (map urlsafe_encode_translation (b2a_base64 d))"
proof (induction d rule: b2a_base64.induct)
  case 4
  show ?case by simp
qed (simp_all add: b2a_props div4_bound idx_bounds BASE64_PAD_def urlsafe_encode_translation_def)

lemma encode_utf8_ascii:
  "list_all (\<lambda>b. b < 0x80) bs \<Longrightarrow> encode_utf8 (map unat bs) = Inr bs"
proof (induction bs)
  case Nil
  show ?case by simp
next
  case (Cons b bs)
  from Cons.prems have "b < 0x80" by simp
  then have "unat b < 128" by (simp add: word_less_nat_alt)
  with Cons show ?case by (simp add: utf8_char_def)
qed

lemma decode_utf8_urlsafe_b64encode:
  "decode_utf8 (urlsafe_b64encode d) = Inr (map unat (urlsafe_b64encode d))"
  using b2a_base64_ascii [of d] by (simp add: decode_utf8_def urlsafe_b64encode_def)

lemma decode_state_token:
  "decode_state (map unat (urlsafe_b64encode d)) = Inr d"
  using b2a_base64_ascii [of d]
  by (simp add: decode_state_def encode_utf8_ascii urlsafe_b64encode_def [symmetric] urlsafe_b64_roundtrip)

section \<open>Properties of the state token\<close>

lemma length_digest_bytes: "length (digest_bytes s) = 32"
  by (induction s rule: digest_bytes.induct) (simp add: be_bytes32_def)

lemma length_sha256: "length (sha256 m) = 32"
  by (simp add: sha256_def length_digest_bytes)

lemma length_hmac_sha256: "length (hmac_sha256 key msg) = 32"
  by (simp add: hmac_sha256_def length_sha256)

lemma generate_state_token:
  assumes "state_secret_key google_oauth = Inr secret_key"
  shows "generate_state google_oauth rng =
           Inr (map unat (urlsafe_b64encode
                  (map rng [0..<16] @ hmac_sha256 secret_key (map rng [0..<16]))),
                \<lambda>i. rng (i + 16))"
  using assms
  by (simp add: generate_state_def os_urandom_def decode_utf8_urlsafe_b64encode)

lemma verify_state_decoded:
  assumes "decode_state state_str = Inr data" and "length data = 48"
    and "state_secret_key google_oauth = Inr secret_key"
  shows "verify_state google_oauth state_str =
           Inr (drop 16 data = hmac_sha256 secret_key (take 16 data))"
  using assms by (simp add: verify_state_def compare_digest_def)

lemma verify_generated:
  assumes "state_secret_key google_oauth = Inr secret_key"
    and "generate_state google_oauth rng = Inr (state_str, rng')"
  shows "verify_state google_oauth state_str = Inr True"
proof -
  define nonce where "nonce = map rng [0..<16]"
  define data where "data = nonce @ hmac_sha256 secret_key nonce"
  have len: "length nonce = 16" by (simp add: nonce_def)
  have tok: "state_str = map unat (urlsafe_b64encode data)"
    using assms generate_state_token [OF assms(1), of rng] by (simp add: data_def nonce_def)
  have dec: "decode_state state_str = Inr data"
    unfolding tok by (rule decode_state_token)
  have "length data = 48" by (simp add: data_def len length_hmac_sha256)
  from verify_state_decoded [OF dec this assms(1)] show ?thesis
    by (simp add: data_def len)
qed

text \<open>
  Claim C1. Whatever the secret key in the configuration is, any number \<open>n\<close> of
  successive calls of \<^verbatim>\<open>generate_state\<close> all return a token, and \<^verbatim>\<open>verify_state\<close> returns
  \<^verbatim>\<open>True\<close> on each of them, wherever the random source stands.
\<close>

theorem generate_verify_roundtrip:
  assumes "state_secret_key google_oauth = Inr secret_key"
  shows "\<exists>tokens rng'. generate_states n google_oauth rng = Inr (tokens, rng')
           \<and> length tokens = n
           \<and> list_all (\<lambda>state_str. verify_state google_oauth state_str = Inr True) tokens"
proof (induction n arbitrary: rng)
  case 0
  show ?case by simp
next
  case (Suc n)
  obtain state_str rng1 where g: "generate_state google_oauth rng = Inr (state_str, rng1)"
    using generate_state_token [OF assms] by blast
  obtain tokens rng2 where rest: "generate_states n google_oauth rng1 = Inr (tokens, rng2)"
    "length tokens = n"
    "list_all (\<lambda>state_str. verify_state google_oauth state_str = Inr True) tokens"
    using Suc.IH by blast
  have "verify_state google_oauth state_str = Inr True"
    by (rule verify_generated [OF assms g])
  with g rest show ?case by simp
qed

subsection \<open>What the decoder reads and what it skips\<close>

lemma translation_unat:
  "unat (urlsafe_decode_translation b) =
     (if unat b = 45 then 43 else if unat b = 95 then 47 else unat b)"
  by (simp add: urlsafe_decode_translation_def word_unat_eq_iff)

lemma table_a2b_base64_unat:
  "table_a2b_base64 (urlsafe_decode_translation b) \<noteq> None \<longleftrightarrow> is_base64_char (unat b)"
  unfolding table_a2b_base64_def translation_unat is_base64_char_def
  by (simp split: if_splits)

lemma pad_unat: "urlsafe_decode_translation b = BASE64_PAD \<longleftrightarrow> unat b = 61"
  by (simp add: word_unat_eq_iff [of _ BASE64_PAD] translation_unat) (simp add: BASE64_PAD_def)

lemma is_read_unat: "is_read (urlsafe_decode_translation b) \<longleftrightarrow> is_token_char (unat b)"
  unfolding is_read_def is_token_char_def table_a2b_base64_unat pad_unat by blast

lemma a2b_loop_skip:
  "\<not> is_read b \<Longrightarrow> a2b_loop q l p (b # cs) out = a2b_loop q l p cs out"
  by (auto simp: is_read_def)

lemma a2b_loop_filter:
  "a2b_loop q l p (filter is_read cs) out = a2b_loop q l p cs out"
proof (induction cs arbitrary: q l p out)
  case Nil
  show ?case by simp
next
  case (Cons c cs)
  show ?case
  proof (cases "is_read c")
    case True
    then show ?thesis by (simp add: Cons.IH split: option.splits)
  next
    case False
    then have "filter is_read (c # cs) = filter is_read cs" by simp
    then show ?thesis by (simp only: a2b_loop_skip [OF False] Cons.IH)
  qed
qed

lemma unat_byte_of_nat: "n < 256 \<Longrightarrow> unat (of_nat n :: byte) = n"
  by (simp add: unat_of_nat)

lemma token_char_ascii: "is_token_char c \<Longrightarrow> c < 128"
  by (auto simp: is_token_char_def is_base64_char_def)

lemma utf8_char_read:
  assumes "utf8_char c = Inr bs"
  shows "filter (\<lambda>b. is_read (urlsafe_decode_translation b)) bs =
           (if is_token_char c then [of_nat c] else [])"
proof (cases "c < 128")
  case True
  with assms have "bs = [of_nat c]" by (simp add: utf8_char_def)
  with True show ?thesis by (simp add: is_read_unat unat_byte_of_nat)
next
  case False
  have high: "\<not> is_token_char n" if "128 \<le> n" for n
    using that token_char_ascii [of n] by auto
  have "\<forall>b \<in> set bs. 128 \<le> unat b"
    using assms False
    by (auto simp: utf8_char_def unat_byte_of_nat simp del: of_nat_add split: if_splits)
  then have "filter (\<lambda>b. is_read (urlsafe_decode_translation b)) bs = []"
    by (auto simp: is_read_unat filter_empty_conv dest: high)
  with False token_char_ascii [of c] show ?thesis by auto
qed

lemma encode_utf8_read:
  "encode_utf8 s = Inr bs \<Longrightarrow>
     filter (\<lambda>b. is_read (urlsafe_decode_translation b)) bs =
       map of_nat (filter is_token_char s)"
proof (induction s arbitrary: bs)
  case Nil
  then show ?case by simp
next
  case (Cons c s)
  from Cons.prems obtain b1 rest where c: "utf8_char c = Inr b1"
    and rest: "encode_utf8 s = Inr rest" and bs: "bs = b1 @ rest"
    by (auto split: sum.splits)
  show ?case
    unfolding bs using utf8_char_read [OF c] Cons.IH [OF rest] by simp
qed

lemma encode_utf8_scalar:
  "list_all is_scalar_value s \<Longrightarrow> \<exists>bs. encode_utf8 s = Inr bs"
  by (induction s) (auto simp: utf8_char_def is_scalar_value_def)

lemma encode_utf8_not_scalar:
  "\<not> list_all is_scalar_value s \<Longrightarrow> encode_utf8 s = Inl UnicodeEncodeError"
proof (induction s)
  case Nil
  then show ?case by simp
next
  case (Cons c s)
  show ?case
  proof (cases "is_scalar_value c")
    case True
    with Cons show ?thesis
      by (auto simp: utf8_char_def is_scalar_value_def split: sum.splits)
  next
    case False
    then show ?thesis by (auto simp: utf8_char_def is_scalar_value_def)
  qed
qed

text \<open>What the decoder makes of a text depends only on the characters it reads.\<close>

lemma decode_state_read:
  assumes "list_all is_scalar_value s"
  shows "decode_state s =
           a2b_loop 0 0 0
             (map urlsafe_decode_translation (map of_nat (filter is_token_char s))) []"
proof -
  from encode_utf8_scalar [OF assms] obtain bs where bs: "encode_utf8 s = Inr bs" by blast
  have "a2b_loop 0 0 0 (map urlsafe_decode_translation bs) [] =
        a2b_loop 0 0 0 (filter is_read (map urlsafe_decode_translation bs)) []"
    by (simp add: a2b_loop_filter)
  also have "filter is_read (map urlsafe_decode_translation bs) =
      map urlsafe_decode_translation (filter (\<lambda>b. is_read (urlsafe_decode_translation b)) bs)"
    by (simp add: filter_map comp_def)
  finally show ?thesis
    by (simp add: decode_state_def bs urlsafe_b64decode_def a2b_base64_def encode_utf8_read [OF bs])
qed

lemma decode_state_filter:
  assumes "list_all is_scalar_value s"
  shows "decode_state (filter is_token_char s) = decode_state s"
proof -
  have "list_all is_scalar_value (filter is_token_char s)"
    using assms by (auto simp: list_all_iff)
  from decode_state_read [OF this] decode_state_read [OF assms] show ?thesis by simp
qed

text \<open>
  On characters of the alphabet alone the loop fails exactly when they do not fill
  whole groups of four, and it writes three bytes for each group.
\<close>

lemma a2b_loop_data:
  assumes "list_all (\<lambda>b. b \<noteq> BASE64_PAD \<and> table_a2b_base64 b \<noteq> None) cs" and "q < 4"
  shows "if (q + length cs) mod 4 \<noteq> 0 then a2b_loop q l p cs out = Inl BinasciiError
         else (\<exists>r. a2b_loop q l p cs out = Inr r
                \<and> length r + written_in_group q = length out + 3 * ((q + length cs) div 4))"
  using assms
proof (induction cs arbitrary: q l p out)
  case Nil
  then show ?case by (auto simp: written_in_group_def)
next
  case (Cons c cs)
  from Cons.prems obtain v where c: "c \<noteq> BASE64_PAD" "table_a2b_base64 c = Some v"
    and cs: "list_all (\<lambda>b. b \<noteq> BASE64_PAD \<and> table_a2b_base64 b \<noteq> None) cs"
    by auto
  from Cons.prems consider "q = 0" | "q = 1" | "q = 2" | "q = 3" by linarith
  then show ?case
  proof cases
    case 1
    have step: "a2b_loop q l p (c # cs) out = a2b_loop 1 v 0 cs out"
      using c 1 by simp
    from Cons.IH [OF cs, of 1 v 0 out] show ?thesis
      unfolding step using 1 by (auto simp: written_in_group_def split: if_splits)
  next
    case 2
    have step: "a2b_loop q l p (c # cs) out =
        a2b_loop 2 (v mod 16) 0 cs (out @ [of_nat (l * 4 + v div 16)])"
      using c 2 by simp
    from Cons.IH [OF cs, of 2 "v mod 16" 0 "out @ [of_nat (l * 4 + v div 16)]"] show ?thesis
      unfolding step using 2 by (auto simp: written_in_group_def split: if_splits)
  next
    case 3
    have step: "a2b_loop q l p (c # cs) out =
        a2b_loop 3 (v mod 4) 0 cs (out @ [of_nat (l * 16 + v div 4)])"
      using c 3 by simp
    from Cons.IH [OF cs, of 3 "v mod 4" 0 "out @ [of_nat (l * 16 + v div 4)]"] show ?thesis
      unfolding step using 3 by (auto simp: written_in_group_def split: if_splits)
  next
    case 4
    have step: "a2b_loop q l p (c # cs) out =
        a2b_loop 0 0 0 cs (out @ [of_nat (l * 64 + v)])"
      using c 4 by simp
    from Cons.IH [OF cs, of 0 0 0 "out @ [of_nat (l * 64 + v)]"] show ?thesis
      unfolding step using 4 by (auto simp: written_in_group_def split: if_splits)
  qed
qed

lemma decode_state_unpadded:
  assumes "list_all is_scalar_value s" and "61 \<notin> set s"
  shows "if length (filter is_base64_char s) mod 4 \<noteq> 0
         then decode_state s = Inl BinasciiError
         else (\<exists>data. decode_state s = Inr data
                \<and> length data = 3 * (length (filter is_base64_char s) div 4))"
proof -
  define cs where
    "cs = map urlsafe_decode_translation (map of_nat (filter is_token_char s))"
  have same: "filter is_token_char s = filter is_base64_char s"
    using assms(2) by (intro filter_cong) (auto simp: is_token_char_def)
  have len: "length cs = length (filter is_base64_char s)"
    by (simp add: cs_def same)
  have "b \<noteq> BASE64_PAD \<and> table_a2b_base64 b \<noteq> None" if "b \<in> set cs" for b
  proof -
    from that obtain c where c: "c \<in> set s" "is_base64_char c"
      and b: "b = urlsafe_decode_translation (of_nat c)"
      unfolding cs_def same by auto
    from c have "c < 128" and "c \<noteq> 61"
      using assms(2) token_char_ascii [of c] by (auto simp: is_token_char_def)
    then have "unat (of_nat c :: byte) = c" by (simp add: unat_byte_of_nat)
    with c \<open>c \<noteq> 61\<close> show ?thesis
      unfolding b using table_a2b_base64_unat [of "of_nat c"] pad_unat [of "of_nat c"]
      by simp
  qed
  then have all: "list_all (\<lambda>b. b \<noteq> BASE64_PAD \<and> table_a2b_base64 b \<noteq> None) cs"
    by (simp add: list_all_iff)
  from a2b_loop_data [OF all, of 0 0 0 "[]"] show ?thesis
    unfolding decode_state_read [OF assms(1)] cs_def [symmetric] len
    by (auto simp: written_in_group_def split: if_splits)
qed

subsection \<open>Evaluating HMAC-SHA256 on the example\<close>

lemma replicate_numeral_Cons: "replicate (numeral n) x = x # replicate (pred_numeral n) x"
  by (simp add: numeral_eq_Suc)

lemma schedule_numeral:
  "schedule (numeral n) w =
     schedule (pred_numeral n)
       (add32 (add32 (add32 (sigma1 (w ! 1)) (w ! 6)) (sigma0 (w ! 14))) (w ! 15) # w)"
  by (simp add: numeral_eq_Suc)

lemma sha_blocks_numeral:
  "sha_blocks (numeral n) s m = sha_blocks (pred_numeral n) (compress s (take 64 m)) (drop 64 m)"
  by (simp add: numeral_eq_Suc)

lemmas sha_eval = add32_def Sigma0_def Sigma1_def sigma0_def sigma1_def Ch_def Maj_def rotr_def
  be32_def sha256_def sha_pad_def be_bytes64_def be_bytes32_def compress_def H256_def K256_def
  schedule_numeral sha_blocks_numeral replicate_numeral_Cons hmac_sha256_def hmac_block_key_def

lemma hmac_example:
  "hmac_sha256 [115, 51, 99, 114, 51, 116, 45, 107, 101, 121]
     [0, 1, 2, 3, 4, 5, 6, 7, 8, 9, 10, 11, 12, 13, 14, 15] =
   [215, 165, 48, 233, 15, 127, 95, 19, 233, 9, 67, 115, 205, 89, 243, 170,
    11, 189, 218, 244, 70, 58, 240, 112, 50, 95, 23, 81, 65, 172, 107, 67]"
  by (simp add: sha_eval)

subsection \<open>Published test vectors\<close>

text \<open>
  Two published values check the model of the hash: the digest of \<^verbatim>\<open>abc\<close> from FIPS
  180-4, and test case 2 of RFC 4231 (key \<^verbatim>\<open>Jefe\<close>, message
  \<^verbatim>\<open>what do ya want for nothing?\<close>).
\<close>

lemma sha256_abc:
  "sha256 (map of_char ''abc'') =
     [186, 120, 22, 191, 143, 1, 207, 234, 65, 65, 64, 222, 93, 174, 34, 35,
      176, 3, 97, 163, 150, 23, 122, 156, 180, 16, 255, 97, 242, 0, 21, 173]"
  by (simp add: sha_eval)

lemma hmac_sha256_rfc4231_case2:
  "hmac_sha256 (map of_char ''Jefe'') (map of_char ''what do ya want for nothing?'') =
     [91, 220, 193, 70, 191, 96, 117, 78, 106, 4, 36, 38, 8, 149, 117, 199,
      90, 0, 63, 8, 157, 39, 57, 131, 157, 236, 88, 185, 100, 236, 56, 67]"
  by (simp add: sha_eval)

subsection \<open>The example token, tampering and undecodable text\<close>

lemmas b64_eval = decode_state_def urlsafe_b64decode_def a2b_base64_def ascii_def utf8_char_def
  urlsafe_decode_translation_def BASE64_PAD_def table_a2b_base64_def

lemma example_key:
  "state_secret_key example_secrets = Inr [115, 51, 99, 114, 51, 116, 45, 107, 101, 121]"
  by (simp add: state_secret_key_def example_secrets_def ascii_def utf8_char_def)

lemma decode_example_token: "decode_state example_token = Inr example_data"
  by (simp add: example_token_def example_data_def b64_eval)

lemma decode_padded_token: "decode_state padded_token = Inr example_data"
  by (simp add: padded_token_def example_data_def b64_eval)

lemma decode_tampered_token: "decode_state tampered_token = Inr (flip_bit_at 16 0 example_data)"
  by (simp add: tampered_token_def example_data_def flip_bit_at_def b64_eval)

lemma example_data_signed:
  "drop 16 example_data =
     hmac_sha256 [115, 51, 99, 114, 51, 116, 45, 107, 101, 121] (take 16 example_data)"
  by (simp add: example_data_def hmac_example)

lemma verify_example_token: "verify_state example_secrets example_token = Inr True"
  using verify_state_decoded [OF decode_example_token _ example_key] example_data_signed
  by (simp add: example_data_def)

lemma generate_example_token:
  "generate_state example_secrets example_rng = Inr (example_token, \<lambda>i. example_rng (i + 16))"
  by (simp add: generate_state_token [OF example_key] example_rng_def [abs_def] upt_rec_numeral upt_conv_Cons
      hmac_example urlsafe_b64encode_def b2a_def table_b2a_base64_def
      urlsafe_encode_translation_def BASE64_PAD_def example_token_def ascii_def)

text \<open>
  The configuration of the example has a secret key, and two successive calls give two
  tokens that both verify.
\<close>

theorem generate_verify_roundtrip_witness:
  "state_secret_key example_secrets = Inr [115, 51, 99, 114, 51, 116, 45, 107, 101, 121]
   \<and> (\<exists>tokens rng'. generate_states 2 example_secrets example_rng = Inr (tokens, rng')
         \<and> length tokens = 2
         \<and> list_all (\<lambda>state_str. verify_state example_secrets state_str = Inr True) tokens)"
  using generate_verify_roundtrip [OF example_key, of 2 example_rng] example_key by simp

lemma flipped_byte_differs:
  assumes "k < 8"
  shows "(x :: byte) XOR push_bit k 1 \<noteq> x"
proof
  assume eq: "x XOR push_bit k 1 = x"
  have "(push_bit k 1 :: byte) = x XOR (x XOR push_bit k 1)"
    by (simp add: bit.xor_left_self)
  also have "\<dots> = x XOR x" by (simp only: eq)
  also have "\<dots> = 0" by simp
  finally have zero: "(push_bit k 1 :: byte) = 0" .
  have "(push_bit k 1 :: byte) \<noteq> 0" using assms by simp
  with zero show False by blast
qed

text \<open>
  Claim C2. Take a token that \<^verbatim>\<open>verify_state\<close> accepts and the 48 bytes it decodes to.
  Invert one bit \<open>k\<close> of one byte \<open>i\<close> of the tag (bytes 16 to 47). Then
  \<^verbatim>\<open>verify_state\<close> returns \<^verbatim>\<open>False\<close> on every text that decodes to the changed bytes.
\<close>

theorem tampered_tag_rejected:
  assumes valid: "verify_state google_oauth state_str = Inr True"
    and dec: "decode_state state_str = Inr data"
    and i: "16 \<le> i" "i < 48" and k: "k < 8"
    and tampered: "decode_state tampered = Inr (flip_bit_at i k data)"
  shows "verify_state google_oauth tampered = Inr False"
proof -
  from valid dec have len: "length data = 48"
    by (auto simp: verify_state_def split: if_splits)
  from valid dec len obtain secret_key where key: "state_secret_key google_oauth = Inr secret_key"
    by (auto simp: verify_state_def split: sum.splits)
  from verify_state_decoded [OF dec len key] valid
  have sig: "drop 16 data = hmac_sha256 secret_key (take 16 data)" by simp
  have len': "length (flip_bit_at i k data) = 48" by (simp add: flip_bit_at_def len)
  have nonce: "take 16 (flip_bit_at i k data) = take 16 data"
    using i by (simp add: flip_bit_at_def)
  have "drop 16 (flip_bit_at i k data) ! (i - 16) = data ! i XOR push_bit k 1"
    using i len by (simp add: flip_bit_at_def)
  moreover have "drop 16 data ! (i - 16) = data ! i"
    using i len by simp
  ultimately have "drop 16 (flip_bit_at i k data) \<noteq> drop 16 data"
    using flipped_byte_differs [OF k, of "data ! i"] by metis
  with verify_state_decoded [OF tampered len' key] sig nonce show ?thesis by simp
qed

text \<open>
  The token of the example is accepted; with the lowest bit of its first tag byte
  inverted and encoded again, it is rejected.
\<close>

theorem tampered_tag_rejected_witness:
  "verify_state example_secrets example_token = Inr True
   \<and> decode_state example_token = Inr example_data
   \<and> decode_state tampered_token = Inr (flip_bit_at 16 0 example_data)
   \<and> verify_state example_secrets tampered_token = Inr False"
  using tampered_tag_rejected [OF verify_example_token decode_example_token _ _ _ decode_tampered_token]
    verify_example_token decode_example_token decode_tampered_token
  by simp

lemma verify_state_undecodable:
  assumes "(\<exists>e. decode_state state_str = Inl e)
           \<or> (\<exists>data. decode_state state_str = Inr data \<and> length data \<noteq> 48)"
  shows "verify_state google_oauth state_str = Inr False"
  using assms by (auto simp: verify_state_def)

lemma filter_padded_token: "filter is_token_char padded_token = example_token"
  by (simp add: padded_token_def example_token_def ascii_def is_token_char_def
      is_base64_char_def)

lemma padded_token_scalar: "list_all is_scalar_value padded_token"
  by (simp add: padded_token_def ascii_def is_scalar_value_def)

text \<open>
  Claim C3, as amended. When decoding the text raises, or gives a number of bytes other
  than 48, \<^verbatim>\<open>verify_state\<close> returns \<^verbatim>\<open>False\<close>; it does not raise, whatever the
  configuration holds. Decoding raises for every text with a code point that UTF-8
  cannot encode, and for every text of code points it can encode, without \<^verbatim>\<open>=\<close>, whose
  number of base64 characters is no multiple of four; such a text with a number of
  base64 characters other than 64 is rejected. In a text of code points that UTF-8 can
  encode, the characters that are neither base64 characters nor \<^verbatim>\<open>=\<close> are discarded:
  \<^verbatim>\<open>verify_state\<close> returns what it returns on the text without them.
\<close>

theorem undecodable_rejected:
  "((\<exists>e. decode_state state_str = Inl e)
      \<or> (\<exists>data. decode_state state_str = Inr data \<and> length data \<noteq> 48) \<longrightarrow>
     verify_state google_oauth state_str = Inr False)
   \<and> (\<not> list_all is_scalar_value state_str \<longrightarrow>
        decode_state state_str = Inl UnicodeEncodeError
        \<and> verify_state google_oauth state_str = Inr False)
   \<and> (list_all is_scalar_value state_str \<and> 61 \<notin> set state_str
        \<and> length (filter is_base64_char state_str) mod 4 \<noteq> 0 \<longrightarrow>
        decode_state state_str = Inl BinasciiError)
   \<and> (list_all is_scalar_value state_str \<and> 61 \<notin> set state_str
        \<and> length (filter is_base64_char state_str) \<noteq> 64 \<longrightarrow>
        verify_state google_oauth state_str = Inr False)
   \<and> (list_all is_scalar_value state_str \<longrightarrow>
        decode_state (filter is_token_char state_str) = decode_state state_str
        \<and> verify_state google_oauth (filter is_token_char state_str) =
            verify_state google_oauth state_str)"
proof (intro conjI impI)
  assume "(\<exists>e. decode_state state_str = Inl e)
      \<or> (\<exists>data. decode_state state_str = Inr data \<and> length data \<noteq> 48)"
  then show "verify_state google_oauth state_str = Inr False"
    by (rule verify_state_undecodable)
next
  assume ns: "\<not> list_all is_scalar_value state_str"
  then show enc: "decode_state state_str = Inl UnicodeEncodeError"
    by (simp add: decode_state_def encode_utf8_not_scalar)
  then show "verify_state google_oauth state_str = Inr False"
    by (intro verify_state_undecodable) simp
next
  assume "list_all is_scalar_value state_str \<and> 61 \<notin> set state_str
        \<and> length (filter is_base64_char state_str) mod 4 \<noteq> 0"
  then show "decode_state state_str = Inl BinasciiError"
    using decode_state_unpadded [of state_str] by simp
next
  assume a: "list_all is_scalar_value state_str \<and> 61 \<notin> set state_str
        \<and> length (filter is_base64_char state_str) \<noteq> 64"
  show "verify_state google_oauth state_str = Inr False"
  proof (cases "length (filter is_base64_char state_str) mod 4 = 0")
    case True
    with a decode_state_unpadded [of state_str] obtain data
      where d: "decode_state state_str = Inr data"
        and l: "length data = 3 * (length (filter is_base64_char state_str) div 4)"
      by auto
    have "length (filter is_base64_char state_str) div 4 \<noteq> 16"
    proof
      assume "length (filter is_base64_char state_str) div 4 = 16"
      with True div_mult_mod_eq [of "length (filter is_base64_char state_str)" 4]
      have "length (filter is_base64_char state_str) = 64" by simp
      with a show False by simp
    qed
    with l have "length data \<noteq> 48" by simp
    with d show ?thesis by (intro verify_state_undecodable) simp
  next
    case False
    with a decode_state_unpadded [of state_str]
    have "decode_state state_str = Inl BinasciiError" by simp
    then show ?thesis by (intro verify_state_undecodable) simp
  qed
next
  assume a: "list_all is_scalar_value state_str"
  then show d: "decode_state (filter is_token_char state_str) = decode_state state_str"
    by (rule decode_state_filter)
  then show "verify_state google_oauth (filter is_token_char state_str) =
            verify_state google_oauth state_str"
    by (simp add: verify_state_def)
qed

text \<open>
  One character cannot be decoded and is no whole group; a lone surrogate cannot be
  encoded; four characters decode to three bytes; the token of the example followed by
  \<^verbatim>\<open>!\<close> is verified as the token itself is.
\<close>

theorem undecodable_rejected_witness:
  "decode_state (ascii ''A'') = Inl BinasciiError
   \<and> list_all is_scalar_value (ascii ''A'') \<and> 61 \<notin> set (ascii ''A'')
   \<and> length (filter is_base64_char (ascii ''A'')) = 1
   \<and> verify_state example_secrets (ascii ''A'') = Inr False
   \<and> \<not> list_all is_scalar_value [0xD800]
   \<and> verify_state example_secrets [0xD800] = Inr False
   \<and> list_all is_scalar_value (ascii ''QUJD'') \<and> 61 \<notin> set (ascii ''QUJD'')
   \<and> length (filter is_base64_char (ascii ''QUJD'')) = 4
   \<and> verify_state example_secrets (ascii ''QUJD'') = Inr False
   \<and> list_all is_scalar_value padded_token
   \<and> filter is_token_char padded_token = example_token
   \<and> verify_state example_secrets padded_token = verify_state example_secrets example_token"
proof -
  have a: "list_all is_scalar_value (ascii ''A'')" "61 \<notin> set (ascii ''A'')"
    "length (filter is_base64_char (ascii ''A'')) = 1"
    by (simp_all add: ascii_def is_scalar_value_def is_base64_char_def)
  have q: "list_all is_scalar_value (ascii ''QUJD'')" "61 \<notin> set (ascii ''QUJD'')"
    "length (filter is_base64_char (ascii ''QUJD'')) = 4"
    by (simp_all add: ascii_def is_scalar_value_def is_base64_char_def)
  have s: "\<not> list_all is_scalar_value [0xD800]"
    by (simp add: is_scalar_value_def)
  have a1: "decode_state (ascii ''A'') = Inl BinasciiError"
    using undecodable_rejected [of "ascii ''A''" example_secrets] a by simp
  have a2: "verify_state example_secrets (ascii ''A'') = Inr False"
    using undecodable_rejected [of "ascii ''A''" example_secrets] a1 by blast
  have s1: "verify_state example_secrets [0xD800] = Inr False"
    using undecodable_rejected [of "[0xD800]" example_secrets] s by blast
  have q1: "verify_state example_secrets (ascii ''QUJD'') = Inr False"
    using undecodable_rejected [of "ascii ''QUJD''" example_secrets] q by simp
  have p1: "verify_state example_secrets padded_token =
            verify_state example_secrets example_token"
    using undecodable_rejected [of padded_token example_secrets] padded_token_scalar
    by (simp add: filter_padded_token)
  from a a1 a2 s s1 q q1 padded_token_scalar filter_padded_token p1 show ?thesis
    by simp
qed

text \<open>
  Claim C3 as stated fails: the token of the example followed by \<^verbatim>\<open>!\<close> is not URL-safe
  base64, yet the decoder drops the \<^verbatim>\<open>!\<close> and \<^verbatim>\<open>verify_state\<close> returns \<^verbatim>\<open>True\<close>.
\<close>

theorem invalid_base64_accepted:
  "\<not> valid_urlsafe_base64 padded_token \<and> verify_state example_secrets padded_token = Inr True"
proof -
  have "\<not> valid_urlsafe_base64 padded_token"
    by (simp add: valid_urlsafe_base64_def padded_token_def ascii_def)
  moreover have "verify_state example_secrets padded_token = Inr True"
    using verify_state_decoded [OF decode_padded_token _ example_key] example_data_signed
    by (simp add: example_data_def)
  ultimately show ?thesis by simp
qed

section \<open>Properties of the calendar\<close>

text \<open>
  Claim C5. With the month between 1 and 12, the button for the previous month followed
  by the button for the next month gives back the session state, and so do the two in
  the other order. Going back from January gives December of the year before, going on
  from December gives January of the year after; the year is any integer.
\<close>

theorem month_navigation_inverse:
  assumes "1 \<le> cal_month st" and "cal_month st \<le> 12"
  shows "month_buttons False True (month_buttons True False st) = st
       \<and> month_buttons True False (month_buttons False True st) = st
       \<and> (cal_year (month_buttons True False st), cal_month (month_buttons True False st)) =
           (if cal_month st = 1 then (cal_year st - 1, 12) else (cal_year st, cal_month st - 1))
       \<and> (cal_year (month_buttons False True st), cal_month (month_buttons False True st)) =
           (if cal_month st = 12 then (cal_year st + 1, 1) else (cal_year st, cal_month st + 1))"
  using assms by (simp add: month_buttons_def Let_def)

text \<open>The example state shows January 2024; the month before is December 2023.\<close>

theorem month_navigation_inverse_witness:
  "1 \<le> cal_month example_state \<and> cal_month example_state \<le> 12
   \<and> month_buttons False True (month_buttons True False example_state) = example_state
   \<and> month_buttons True False (month_buttons False True example_state) = example_state
   \<and> cal_year (month_buttons True False example_state) = 2023
   \<and> cal_month (month_buttons True False example_state) = 12"
proof -
  have m: "1 \<le> cal_month example_state" "cal_month example_state \<le> 12"
    by (simp_all add: example_state_def)
  from month_navigation_inverse [OF m] m show ?thesis
    by (simp add: example_state_def)
qed

lemma concat_slices7: "concat (slices7 xs) = xs"
proof (induction xs rule: slices7.induct)
  case (1 days)
  then show ?case by (subst slices7.simps) simp
qed

lemma slices7_whole:
  "length xs mod 7 = 0 \<Longrightarrow> list_all (\<lambda>w. length w = 7) (slices7 xs)"
proof (induction xs rule: slices7.induct)
  case (1 days)
  show ?case
  proof (cases "days = []")
    case True
    then show ?thesis by (subst slices7.simps) simp
  next
    case False
    with "1.prems" have len: "7 \<le> length days"
      by (cases "length days < 7") auto
    then have "length (drop 7 days) mod 7 = 0"
      using "1.prems" by (simp add: mod_diff_eq [symmetric] le_mod_geq)
    with "1.IH" [OF False] have "list_all (\<lambda>w. length w = 7) (slices7 (drop 7 days))" .
    with len False show ?thesis by (subst slices7.simps) simp
  qed
qed

lemma month_cases:
  assumes "1 \<le> (m :: int)" and "m \<le> 12"
  shows "m = 1 \<or> m = 2 \<or> m = 3 \<or> m = 4 \<or> m = 5 \<or> m = 6 \<or> m = 7 \<or> m = 8 \<or> m = 9
         \<or> m = 10 \<or> m = 11 \<or> m = 12"
  using assms by arith

lemma mdays_bounds:
  assumes "1 \<le> m" and "m \<le> 12"
  shows "28 \<le> mdays ! nat m" and "mdays ! nat m \<le> 31"
  using month_cases [OF assms] by (auto simp: mdays_def)

lemma days_in_month_mdays:
  "days_in_month y m = mdays ! nat m + (if m = 2 \<and> is_leap y then 1 else 0)"
  by (simp add: days_in_month_def mdays_def)

lemma days_in_month_bounds:
  assumes "1 \<le> m" and "m \<le> 12"
  shows "28 \<le> days_in_month y m" and "days_in_month y m \<le> 31"
  using mdays_bounds [OF assms] month_cases [OF assms]
  by (auto simp: days_in_month_def mdays_def)

lemma dt_date_first:
  assumes "1 \<le> y" and "y \<le> 9999" and "1 \<le> m" and "m \<le> 12"
  shows "dt_date y m 1 = Inr \<lparr>date_year = y, date_month = m, date_day = 1\<rparr>"
  using assms days_in_month_bounds [OF assms(3,4), of y]
  by (simp add: dt_date_def fits_c_int_def)

lemma monthrange_ok:
  assumes "1 \<le> m" and "m \<le> 12"
  shows "\<exists>day1. monthrange y m = Inr (day1, days_in_month y m)"
proof -
  define y' where "y' = (if \<not> (1 \<le> y \<and> y \<le> 9999) then 2000 + y mod 400 else y)"
  have "1 \<le> y'" and "y' \<le> 9999"
    unfolding y'_def by auto
  from dt_date_first [OF this assms]
  have "calendar_weekday y m 1 =
          Inr (date_weekday \<lparr>date_year = y', date_month = m, date_day = 1\<rparr>)"
    unfolding calendar_weekday_def y'_def [symmetric] by simp
  with assms show ?thesis
    by (simp add: monthrange_def days_in_month_mdays)
qed

lemma grid_length:
  fixes day1 fw ndays :: int
  assumes "0 \<le> ndays"
  shows "(nat ((day1 - fw) mod 7) + (nat ndays + nat ((fw - day1 - ndays) mod 7))) mod 7 = 0"
proof -
  define k where "k = nat ((day1 - fw) mod 7) + (nat ndays + nat ((fw - day1 - ndays) mod 7))"
  have "((day1 - fw) mod 7 + ndays + (fw - day1 - ndays) mod 7) mod 7 = 0"
    by (simp add: mod_simps)
  moreover have "int k = (day1 - fw) mod 7 + ndays + (fw - day1 - ndays) mod 7"
    using assms by (simp add: k_def)
  ultimately have "int (k mod 7) = 0"
    by (simp add: zmod_int)
  then show ?thesis by (simp add: k_def)
qed

lemmas calendar_eval = monthdayscalendar_def itermonthdays_def monthrange_def calendar_weekday_def
  dt_date_def fits_c_int_def days_in_month_def mdays_def is_leap_def date_weekday_def
  toordinal_def
  days_before_year_def days_before_month_def

lemma monthrange_february_2024: "monthrange 2024 2 = Inr (3, 29)"
  by (simp add: calendar_eval)

lemma itermonthdays_february_2024:
  "itermonthdays 6 2024 2 =
     Inr [0, 0, 0, 0, 1, 2, 3, 4, 5, 6, 7, 8, 9, 10, 11, 12, 13, 14, 15, 16, 17,
          18, 19, 20, 21, 22, 23, 24, 25, 26, 27, 28, 29, 0, 0]"
  by (simp add: itermonthdays_def monthrange_february_2024 upt_conv_Cons replicate_numeral_Cons
      del: upt_Suc)

text \<open>
  Claim C6. For every year, every month from 1 to 12 and every first day of the week,
  the grid is a list of weeks of exactly seven cells; read row by row it is fewer than
  seven empty cells, the days 1 to the last day of the month, and fewer than seven
  empty cells. For February 2024 with Sunday first, it holds the days 1 to 29 after
  four empty cells.
\<close>

theorem month_grid_whole_weeks:
  "(1 \<le> m \<and> m \<le> 12 \<longrightarrow>
      (\<exists>weeks before after.
         monthdayscalendar firstweekday y m = Inr weeks
         \<and> list_all (\<lambda>week. length week = 7) weeks
         \<and> before < 7 \<and> after < 7
         \<and> concat weeks = replicate before 0 @ map int [1..<Suc (nat (days_in_month y m))]
                             @ replicate after 0))
   \<and> monthdayscalendar 6 2024 2 =
       Inr [[0, 0, 0, 0, 1, 2, 3], [4, 5, 6, 7, 8, 9, 10], [11, 12, 13, 14, 15, 16, 17],
            [18, 19, 20, 21, 22, 23, 24], [25, 26, 27, 28, 29, 0, 0]]"
proof (intro conjI impI)
  assume m: "1 \<le> m \<and> m \<le> 12"
  then obtain day1 where mr: "monthrange y m = Inr (day1, days_in_month y m)"
    using monthrange_ok [of m y] by blast
  define ndays where "ndays = days_in_month y m"
  define before where "before = nat ((day1 - firstweekday) mod 7)"
  define after where "after = nat ((firstweekday - day1 - ndays) mod 7)"
  define days where "days = replicate before (0 :: int) @ map int [1..<Suc (nat ndays)] @ replicate after 0"
  have nd: "0 \<le> ndays" using days_in_month_bounds(1) [of m y] m by (simp add: ndays_def)
  have it: "itermonthdays firstweekday y m = Inr days"
    by (simp add: itermonthdays_def mr days_def before_def after_def ndays_def)
  have "length days mod 7 = 0"
    using grid_length [OF nd, of day1 firstweekday]
    by (simp add: days_def before_def after_def del: upt_Suc)
  then have whole: "list_all (\<lambda>week. length week = 7) (slices7 days)"
    by (rule slices7_whole)
  have "before < 7" and "after < 7"
    by (simp_all add: before_def after_def)
  with it whole show "\<exists>weeks before after.
         monthdayscalendar firstweekday y m = Inr weeks
         \<and> list_all (\<lambda>week. length week = 7) weeks
         \<and> before < 7 \<and> after < 7
         \<and> concat weeks = replicate before 0 @ map int [1..<Suc (nat (days_in_month y m))]
                             @ replicate after 0"
    by (intro exI [of _ "slices7 days"] exI [of _ before] exI [of _ after])
       (simp add: monthdayscalendar_def concat_slices7 days_def ndays_def)
next
  show "monthdayscalendar 6 2024 2 =
       Inr [[0, 0, 0, 0, 1, 2, 3], [4, 5, 6, 7, 8, 9, 10], [11, 12, 13, 14, 15, 16, 17],
            [18, 19, 20, 21, 22, 23, 24], [25, 26, 27, 28, 29, 0, 0]]"
    by (simp add: monthdayscalendar_def itermonthdays_february_2024 slices7.simps)
qed

text \<open>February 2024, Sunday first: a month from 1 to 12, and a grid of whole weeks.\<close>

theorem month_grid_whole_weeks_witness:
  "(1 :: int) \<le> 2 \<and> (2 :: int) \<le> 12
   \<and> (\<exists>weeks before after.
         monthdayscalendar 6 2024 2 = Inr weeks
         \<and> list_all (\<lambda>week. length week = 7) weeks
         \<and> before < 7 \<and> after < 7
         \<and> concat weeks = replicate before 0 @ map int [1..<Suc (nat (days_in_month 2024 2))]
                             @ replicate after 0)"
proof -
  have "(1 :: int) \<le> 2 \<and> (2 :: int) \<le> 12" by simp
  with month_grid_whole_weeks [of 2 6 2024] show ?thesis by blast
qed

section \<open>Properties of number text and of the day label\<close>

lemma nat_digits_all_digits: "list_all is_digit (nat_digits n)"
proof (induction n rule: nat_digits.induct)
  case (1 n)
  show ?case
  proof (cases "n < 10")
    case True
    then show ?thesis by (subst nat_digits.simps) (simp add: is_digit_def)
  next
    case False
    have "n mod 10 < 10" by simp
    then have "is_digit (48 + n mod 10)" unfolding is_digit_def by linarith
    with False "1.IH" show ?thesis by (subst nat_digits.simps) simp
  qed
qed

lemma nat_digits_nonempty: "nat_digits n \<noteq> []"
  by (subst nat_digits.simps) simp

lemma digits_value_digits:
  "list_all is_digit ds \<Longrightarrow>
     digits_value acc ds = Some (foldl (\<lambda>a c. a * 10 + (c - 48)) acc ds)"
  by (induction ds arbitrary: acc) simp_all

lemma foldl_nat_digits:
  "foldl (\<lambda>a c. a * 10 + (c - 48)) acc (nat_digits n) = acc * 10 ^ length (nat_digits n) + n"
proof (induction n arbitrary: acc rule: nat_digits.induct)
  case (1 n)
  show ?case
  proof (cases "n < 10")
    case True
    then show ?thesis by (subst (1 2) nat_digits.simps) simp
  next
    case False
    have "foldl (\<lambda>a c. a * 10 + (c - 48)) acc (nat_digits n) =
            (acc * 10 ^ length (nat_digits (n div 10)) + n div 10) * 10 + n mod 10"
      using False "1.IH" by (subst nat_digits.simps) simp
    also have "\<dots> = acc * 10 ^ Suc (length (nat_digits (n div 10))) + n"
      by (simp add: algebra_simps)
    also have "Suc (length (nat_digits (n div 10))) = length (nat_digits n)"
      using False by (subst (2) nat_digits.simps) simp
    finally show ?thesis .
  qed
qed

lemma strip_id:
  assumes "s \<noteq> []" and "\<not> is_space (hd s)" and "\<not> is_space (last s)"
  shows "strip s = s"
proof -
  from assms have "dropWhile is_space s = s" by (cases s) simp_all
  moreover from assms have "dropWhile is_space (rev s) = rev s"
    by (cases "rev s") (simp_all add: hd_rev)
  ultimately show ?thesis by (simp add: strip_def)
qed

lemma digit_not_space: "is_digit c \<Longrightarrow> \<not> is_space c"
  by (auto simp: is_digit_def is_space_def)

lemma digit_not_sign: "is_digit c \<Longrightarrow> c \<noteq> 45 \<and> c \<noteq> 43"
  by (auto simp: is_digit_def)

lemma to_ascii_digits: "list_all is_digit ds \<Longrightarrow> map to_ascii ds = ds"
  by (induction ds) (simp_all add: to_ascii_def is_digit_def)

lemma py_int_digits:
  assumes "ds \<noteq> []" and "list_all is_digit ds"
  shows "py_int ds = Inr (int (foldl (\<lambda>a c. a * 10 + (c - 48)) 0 ds))"
    and "py_int (45 # ds) = Inr (- int (foldl (\<lambda>a c. a * 10 + (c - 48)) 0 ds))"
proof -
  have asc: "map to_ascii ds = ds" "map to_ascii (45 # ds) = 45 # ds"
    using assms(2) by (simp_all add: to_ascii_digits) (simp add: to_ascii_def)
  from assms obtain c cs where ds: "ds = c # cs" by (cases ds) auto
  from assms have hd: "is_digit (hd ds)" and last: "is_digit (last ds)"
    by (auto simp: list_all_iff)
  have s1: "strip ds = ds"
    using assms hd last by (intro strip_id) (auto dest: digit_not_space)
  have s2: "strip (45 # ds) = 45 # ds"
    using assms last by (intro strip_id) (auto dest: digit_not_space simp: is_space_def)
  from hd ds have c: "is_digit c" by simp
  show "py_int ds = Inr (int (foldl (\<lambda>a c. a * 10 + (c - 48)) 0 ds))"
    unfolding py_int_def asc long_from_string_def s1
    using c digit_not_sign [OF c] digits_value_digits [OF assms(2), of 0]
    by (simp add: ds)
  show "py_int (45 # ds) = Inr (- int (foldl (\<lambda>a c. a * 10 + (c - 48)) 0 ds))"
    unfolding py_int_def asc long_from_string_def s2
    using c digits_value_digits [OF assms(2), of 0]
    by (simp add: ds)
qed

lemma py_int_str_of_int: "py_int (str_of_int n) = Inr n"
  using py_int_digits [OF nat_digits_nonempty nat_digits_all_digits]
  by (simp add: str_of_int_def foldl_nat_digits)

lemma str_of_int_15: "str_of_int 15 = [49, 53]"
  by (simp add: str_of_int_def nat_digits.simps)

text \<open>
  Claim C9. The label of a day is its number as decimal text (reading the text back
  gives the number), inside brackets exactly when the day's date is the selected date,
  and followed by the marker exactly when the day has events; the brackets are inside,
  the marker comes last. Day 15, selected and with events, has the label \<^verbatim>\<open>[15]\<close>
  followed by the marker.
\<close>

theorem day_label_format:
  "day_label d date_obj selected days_with_events =
     (if date_obj = selected then ascii ''['' @ str_of_int d @ ascii '']'' else str_of_int d)
       @ (if d \<in> days_with_events then [32, 0x25CF] else [])
   \<and> py_int (str_of_int d) = Inr d
   \<and> day_label 15 selected selected (insert 15 days_with_events) =
       ascii ''[15]'' @ [32, 0x25CF]"
  by (simp add: day_label_def py_int_str_of_int str_of_int_15 ascii_def)

section \<open>Properties of the event days\<close>

lemma length_nat_digits: "n < 10 ^ k \<Longrightarrow> 0 < k \<Longrightarrow> length (nat_digits n) \<le> k"
proof (induction n arbitrary: k rule: nat_digits.induct)
  case (1 n)
  show ?case
  proof (cases "n < 10")
    case True
    with "1.prems" show ?thesis by (subst nat_digits.simps) simp
  next
    case False
    from "1.prems" obtain j where k: "k = Suc j" by (cases k) auto
    with False "1.prems" have "0 < j" by (cases j) auto
    moreover from "1.prems" k have "n div 10 < 10 ^ j"
      by (simp add: less_mult_imp_div_less mult.commute)
    ultimately have "length (nat_digits (n div 10)) \<le> j"
      using "1.IH" [OF False] by blast
    with False k show ?thesis by (subst nat_digits.simps) simp
  qed
qed

lemma length_zero_pad:
  assumes "0 \<le> n" and "n < 10 ^ w" and "0 < w"
  shows "length (zero_pad w n) = w"
proof -
  from assms have "nat n < 10 ^ w"
    by (metis nat_less_iff of_nat_numeral of_nat_power)
  from length_nat_digits [OF this assms(3)] show ?thesis
    by (simp add: zero_pad_def)
qed

lemma zero_pad_all_digits: "list_all is_digit (zero_pad w n)"
  using nat_digits_all_digits [of "nat n"]
  by (auto simp: zero_pad_def list_all_iff is_digit_def)

lemma zero_pad_nonempty: "zero_pad w n \<noteq> []"
  by (simp add: zero_pad_def nat_digits_nonempty)

lemma foldl_zeros: "foldl (\<lambda>a c. a * 10 + (c - 48)) 0 (replicate k 48) = (0 :: nat)"
  by (induction k) simp_all

lemma py_int_zero_pad:
  assumes "0 \<le> n"
  shows "py_int (zero_pad w n) = Inr n"
  using py_int_digits(1) [OF zero_pad_nonempty zero_pad_all_digits, of w n] assms
  by (simp add: zero_pad_def foldl_zeros foldl_nat_digits)

lemma split_on_none: "sep \<notin> set a \<Longrightarrow> split_on sep a = [a]"
  by (induction a) simp_all

lemma split_on_first: "sep \<notin> set a \<Longrightarrow> split_on sep (a @ sep # b) = a # split_on sep b"
  by (induction a) simp_all

lemma digits_no_hyphen: "list_all is_digit ds \<Longrightarrow> 45 \<notin> set ds"
  by (auto simp: list_all_iff is_digit_def)

lemma parse_day_iso:
  assumes "0 \<le> y" "y \<le> 9999" "0 \<le> m" "m \<le> 99" "0 \<le> d" "d \<le> 99"
  shows "parse_day (zero_pad 4 y @ ascii ''-'' @ zero_pad 2 m @ ascii ''-'' @ zero_pad 2 d @ rest)
           = Inr d"
proof -
  define Y where "Y = zero_pad 4 y"
  define M where "M = zero_pad 2 m"
  define D where "D = zero_pad 2 d"
  have len: "length Y = 4" "length M = 2" "length D = 2"
    using assms by (simp_all add: Y_def M_def D_def length_zero_pad)
  have nh: "45 \<notin> set Y" "45 \<notin> set M" "45 \<notin> set D"
    unfolding Y_def M_def D_def by (rule digits_no_hyphen [OF zero_pad_all_digits])+
  have "take 10 (Y @ ascii ''-'' @ M @ ascii ''-'' @ D @ rest) = Y @ 45 # M @ 45 # D"
    using len by (simp add: ascii_def)
  moreover have "split_on 45 (Y @ 45 # M @ 45 # D) = [Y, M, D]"
    using nh by (simp add: split_on_first split_on_none)
  moreover have "py_int Y = Inr y" "py_int M = Inr m" "py_int D = Inr d"
    using assms by (simp_all add: Y_def M_def D_def py_int_zero_pad)
  ultimately show ?thesis
    unfolding Y_def [symmetric] M_def [symmetric] D_def [symmetric]
    by (simp add: parse_day_def)
qed

lemma parse_day_take: "parse_day (take 10 s) = parse_day s"
  by (simp add: parse_day_def)

lemma event_date_str_Null: "event_date_str ev = Inl e \<longleftrightarrow> event_start ev = Null \<and> e = AttributeError"
  by (auto simp: event_date_str_def split: field.splits option.splits)

lemma collect_days_set:
  assumes "list_all (\<lambda>ev. event_start ev \<noteq> Null) items"
  shows "collect_days items days =
     Inr (days \<union> {d. \<exists>ev s. ev \<in> set items \<and> event_date_str ev = Inr (Some s)
                       \<and> parse_day s = Inr d})"
  using assms
proof (induction items arbitrary: days)
  case Nil
  show ?case by simp
next
  case (Cons ev items)
  then have rest: "list_all (\<lambda>ev. event_start ev \<noteq> Null) items"
    and ev: "event_start ev \<noteq> Null" by simp_all
  note IH = Cons.IH [OF rest]
  show ?case
  proof (cases "event_date_str ev")
    case (Inl e)
    with ev show ?thesis by (simp add: event_date_str_Null)
  next
    case (Inr r)
    show ?thesis
    proof (cases r)
      case None
      with Inr show ?thesis by (auto simp: IH)
    next
      case (Some s)
      show ?thesis
      proof (cases "parse_day s")
        case (Inl e)
        with Inr Some show ?thesis by (auto simp: IH)
      next
        case (Inr d)
        with \<open>event_date_str ev = Inr r\<close> Some show ?thesis by (auto simp: IH)
      qed
    qed
  qed
qed

lemma collect_days_skip:
  assumes "event_date_str ev = Inr None
           \<or> (\<exists>s e. event_date_str ev = Inr (Some s) \<and> parse_day s = Inl e)"
  shows "collect_days (before @ ev # after) days = collect_days (before @ after) days"
proof (induction before arbitrary: days)
  case Nil
  from assms show ?case by auto
next
  case (Cons b before)
  then show ?case by (simp split: sum.splits option.splits)
qed

lemma collect_days_null:
  assumes "list_all (\<lambda>ev. event_start ev \<noteq> Null) before" and "event_start ev = Null"
  shows "collect_days (before @ ev # after) days = Inl AttributeError"
  using assms(1)
proof (induction before arbitrary: days)
  case Nil
  from assms(2) show ?case by (simp add: event_date_str_def)
next
  case (Cons b before)
  then have "event_start b \<noteq> Null" and "list_all (\<lambda>ev. event_start ev \<noteq> Null) before"
    by simp_all
  with Cons.IH show ?case
    by (auto simp: event_date_str_Null split: sum.splits option.splits)
qed

lemma split_on_nonempty: "split_on sep s \<noteq> []"
  by (induction s) simp_all

lemma length_split_on: "length (split_on sep s) = Suc (length (filter (\<lambda>c. c = sep) s))"
proof (induction s)
  case Nil
  show ?case by simp
next
  case (Cons c s)
  obtain p ps where "split_on sep s = p # ps"
    using split_on_nonempty [of sep s] by (cases "split_on sep s") auto
  with Cons show ?case by simp
qed

lemma parse_day_parts:
  "parse_day s = Inr d \<longleftrightarrow>
     (\<exists>ys ms ds y m. split_on 45 (take 10 s) = [ys, ms, ds]
        \<and> py_int ys = Inr y \<and> py_int ms = Inr m \<and> py_int ds = Inr d)"
  by (auto simp: parse_day_def split: list.splits sum.splits)

lemma parse_day_hyphens:
  assumes "length (filter (\<lambda>c. c = 45) (take 10 s)) \<noteq> 2"
  shows "parse_day s = Inl ValueError"
proof -
  from assms have "length (split_on 45 (take 10 s)) \<noteq> 3"
    by (simp add: length_split_on)
  then show ?thesis
    by (auto simp: parse_day_def split: list.splits)
qed

subsection \<open>The request, and the markers of the examples\<close>

lemmas parse_eval = parse_day_def py_int_def long_from_string_def to_ascii_def to_decimal_def
  decimal_zeros_def is_unicode_space_def strip_def is_space_def is_digit_def ascii_def
  event_date_str_def day_event_def timed_event_def

lemma parse_day_examples:
  "parse_day (ascii ''2024-03-05'') = Inr 5"
  "parse_day (ascii ''2024-03-05T09:00:00Z'') = Inr 5"
  "parse_day (ascii ''2024-03-31'') = Inr 31"
  "parse_day (ascii ''2024-02-27'') = Inr 27"
  "parse_day (ascii ''tomorrow'') = Inl ValueError"
  "parse_day (ascii ''2024-13-99'') = Inr 99"
  by (simp_all add: parse_eval)

text \<open>
  Digits and spaces beyond ASCII are read as \<^verbatim>\<open>int\<close> reads them: the day written with
  the Arabic-Indic digits zero and five, and the day 5 after a no-break space.
\<close>

lemma parse_day_unicode:
  "parse_day (ascii ''2024-03-'' @ [0x660, 0x665]) = Inr 5"
  "parse_day (ascii ''2024-03-'' @ [0xA0, 53]) = Inr 5"
  by (simp_all add: parse_eval)

lemma event_date_str_examples:
  "event_date_str (day_event ''2024-03-05'') = Inr (Some (ascii ''2024-03-05''))"
  "event_date_str (timed_event ''2024-03-05T09:00:00Z'') = Inr (Some (ascii ''2024-03-05T09:00:00Z''))"
  "event_date_str (day_event ''2024-03-31'') = Inr (Some (ascii ''2024-03-31''))"
  "event_date_str (day_event ''2024-02-27'') = Inr (Some (ascii ''2024-02-27''))"
  "event_date_str (day_event ''tomorrow'') = Inr (Some (ascii ''tomorrow''))"
  "event_date_str (day_event ''2024-13-99'') = Inr (Some (ascii ''2024-13-99''))"
  by (simp_all add: event_date_str_def field_get_def day_event_def timed_event_def ascii_def)

lemma next_month_first:
  assumes "1 \<le> y" "y \<le> 9999" "1 \<le> m" "m \<le> 12" "\<not> (y = 9999 \<and> m = 12)"
  shows "(if m = 12 then dt_date (y + 1) 1 1 else dt_date y (m + 1) 1) =
           Inr (if m = 12 then \<lparr>date_year = y + 1, date_month = 1, date_day = 1\<rparr>
                else \<lparr>date_year = y, date_month = m + 1, date_day = 1\<rparr>)"
proof (cases "m = 12")
  case True
  with assms have "1 \<le> y + 1" "y + 1 \<le> 9999" by auto
  from dt_date_first [OF this, of 1] True show ?thesis by simp
next
  case False
  with assms have "1 \<le> m + 1" "m + 1 \<le> 12" by auto
  from dt_date_first [OF assms(1,2) this] False show ?thesis by simp
qed

lemma month_query_value:
  assumes "1 \<le> y" "y \<le> 9999" "1 \<le> m" "m \<le> 12" "\<not> (y = 9999 \<and> m = 12)"
  shows "month_query y m =
           Inr \<lparr>calendarId = ascii ''primary'',
                timeMin = isoformat_utc_midnight \<lparr>date_year = y, date_month = m, date_day = 1\<rparr>,
                timeMax = isoformat_utc_midnight
                  (if m = 12 then \<lparr>date_year = y + 1, date_month = 1, date_day = 1\<rparr>
                   else \<lparr>date_year = y, date_month = m + 1, date_day = 1\<rparr>),
                singleEvents = True,
                orderBy = ascii ''startTime''\<rparr>"
  using dt_date_first [OF assms(1-4)] next_month_first [OF assms]
  by (simp add: month_query_def)

text \<open>
  Claim C8, as amended. For every year from 1 to 9999 and month from 1 to 12 other than
  December 9999, the request has as lower bound 00:00 UTC of day 1 of the month and as
  upper bound 00:00 UTC of day 1 of the next month, which for December is 1 January of
  the next year; with a service, it is the request the function sends.
\<close>

theorem month_query_bounds:
  assumes "1 \<le> y" and "y \<le> 9999" and "1 \<le> m" and "m \<le> 12"
    and "\<not> (y = 9999 \<and> m = 12)"
  shows "\<exists>q. month_query y m = Inr q
           \<and> timeMin q =
               isoformat_utc_midnight \<lparr>date_year = y, date_month = m, date_day = 1\<rparr>
           \<and> timeMax q =
               isoformat_utc_midnight
                 (if m = 12 then \<lparr>date_year = y + 1, date_month = 1, date_day = 1\<rparr>
                  else \<lparr>date_year = y, date_month = m + 1, date_day = 1\<rparr>)
           \<and> fetch_month_event_days (Some execute) y m =
               (case execute q of
                  Inl e \<Rightarrow> Inl e
                | Inr events_result \<Rightarrow>
                    collect_days
                      (case events_result of None \<Rightarrow> [] | Some items \<Rightarrow> items) {})"
  using month_query_value [OF assms] by (simp add: fetch_month_event_days_def)

lemma isoformat_examples:
  "isoformat_utc_midnight \<lparr>date_year = 2024, date_month = 12, date_day = 1\<rparr> =
     ascii ''2024-12-01T00:00:00+00:00''"
  "isoformat_utc_midnight \<lparr>date_year = 2025, date_month = 1, date_day = 1\<rparr> =
     ascii ''2025-01-01T00:00:00+00:00''"
  by (simp_all add: isoformat_utc_midnight_def zero_pad_def nat_digits.simps ascii_def)

text \<open>
  December 2024: the bounds are \<^verbatim>\<open>2024-12-01T00:00:00+00:00\<close> and
  \<^verbatim>\<open>2025-01-01T00:00:00+00:00\<close>.
\<close>

theorem month_query_bounds_witness:
  "(1 :: int) \<le> 2024 \<and> (2024 :: int) \<le> 9999 \<and> (1 :: int) \<le> 12 \<and> (12 :: int) \<le> 12
   \<and> (\<exists>q. month_query 2024 12 = Inr q
          \<and> timeMin q = ascii ''2024-12-01T00:00:00+00:00''
          \<and> timeMax q = ascii ''2025-01-01T00:00:00+00:00'')"
proof -
  have "\<exists>q. month_query 2024 12 = Inr q
          \<and> timeMin q = ascii ''2024-12-01T00:00:00+00:00''
          \<and> timeMax q = ascii ''2025-01-01T00:00:00+00:00''"
    using month_query_bounds [of 2024 12 march_service] isoformat_examples by auto
  then show ?thesis by simp
qed

text \<open>
  Claim C8 as stated fails for December 9999: the upper bound would be 1 January 10000,
  which \<^verbatim>\<open>datetime.date\<close> refuses, so the function raises and no request is built.
\<close>

theorem month_query_december_9999:
  "month_query 9999 12 = Inl ValueError
   \<and> fetch_month_event_days (Some march_service) 9999 12 = Inl ValueError"
  by (simp add: fetch_month_event_days_def month_query_def dt_date_def fits_c_int_def
      days_in_month_def mdays_def is_leap_def)

lemma fetch_march_2024:
  "fetch_month_event_days (Some execute) 2024 3 =
     (case execute
             \<lparr>calendarId = ascii ''primary'',
              timeMin = isoformat_utc_midnight \<lparr>date_year = 2024, date_month = 3, date_day = 1\<rparr>,
              timeMax = isoformat_utc_midnight \<lparr>date_year = 2024, date_month = 4, date_day = 1\<rparr>,
              singleEvents = True, orderBy = ascii ''startTime''\<rparr> of
        Inl e \<Rightarrow> Inl e
      | Inr events_result \<Rightarrow>
          collect_days (case events_result of None \<Rightarrow> [] | Some items \<Rightarrow> items) {})"
  using month_query_value [of 2024 3] by (simp add: fetch_month_event_days_def)

text \<open>
  Claim C4 fails on the code. Asked for March 2024, a provider that answers with an
  event starting on 27 February 2024 makes the function return the marker 27, although
  the start date lies in another month: the year and the month of the start date are
  parsed and then not looked at.
\<close>

theorem marker_from_other_month:
  "fetch_month_event_days (Some february_service) 2024 3 = Inr {27}"
  by (simp add: fetch_march_2024 february_service_def event_date_str_examples
      parse_day_examples)

text \<open>
  Claim C7, as amended. The markers come from the first ten characters of each event's
  start text, split at \<^verbatim>\<open>-\<close> and read with \<^verbatim>\<open>int\<close>: when no event has \<^verbatim>\<open>null\<close> for its
  start, the loop adds to the set exactly the third numbers of the events whose first
  ten characters are three parts that are all numbers. A text that begins with a year,
  a month and a day in the form YYYY-MM-DD gives its day; the three numbers need not
  name a date of the calendar. An event with no start text, with other than two \<^verbatim>\<open>-\<close>
  in the first ten characters, or with a part that \<^verbatim>\<open>int\<close> does not read changes nothing
  and does not stop the loop. The first event whose start is \<^verbatim>\<open>null\<close> makes the function
  raise. The three events of 5, 5 and 31 March 2024 give the set of 5 and 31.
\<close>

theorem day_markers:
  "fetch_month_event_days (Some march_service) 2024 3 = Inr {5, 31}
   \<and> (list_all (\<lambda>ev. event_start ev \<noteq> Null) items \<longrightarrow>
        collect_days items days =
          Inr (days \<union> {d. \<exists>ev s ys ms ds y m. ev \<in> set items
                         \<and> event_date_str ev = Inr (Some s)
                         \<and> split_on 45 (take 10 s) = [ys, ms, ds]
                         \<and> py_int ys = Inr y \<and> py_int ms = Inr m \<and> py_int ds = Inr d}))
   \<and> (0 \<le> y \<and> y \<le> 9999 \<and> 0 \<le> m \<and> m \<le> 99 \<and> 0 \<le> d \<and> d \<le> 99 \<longrightarrow>
        parse_day (zero_pad 4 y @ ascii ''-'' @ zero_pad 2 m @ ascii ''-'' @ zero_pad 2 d @ rest)
          = Inr d)
   \<and> (length (filter (\<lambda>c. c = 45) (take 10 s)) \<noteq> 2 \<longrightarrow> parse_day s = Inl ValueError)
   \<and> (event_date_str ev = Inr None
        \<or> (\<exists>s e. event_date_str ev = Inr (Some s) \<and> parse_day s = Inl e) \<longrightarrow>
        collect_days (before @ ev # after) days = collect_days (before @ after) days)
   \<and> (list_all (\<lambda>ev. event_start ev \<noteq> Null) before \<and> event_start ev = Null \<longrightarrow>
        collect_days (before @ ev # after) days = Inl AttributeError)"
proof (intro conjI impI)
  show "fetch_month_event_days (Some march_service) 2024 3 = Inr {5, 31}"
    by (simp add: fetch_march_2024 march_service_def event_date_str_examples
        parse_day_examples insert_commute)
next
  assume nn: "list_all (\<lambda>ev. event_start ev \<noteq> Null) items"
  have "{d. \<exists>ev s. ev \<in> set items \<and> event_date_str ev = Inr (Some s) \<and> parse_day s = Inr d} =
        {d. \<exists>ev s ys ms ds y m. ev \<in> set items \<and> event_date_str ev = Inr (Some s)
                      \<and> split_on 45 (take 10 s) = [ys, ms, ds]
                      \<and> py_int ys = Inr y \<and> py_int ms = Inr m \<and> py_int ds = Inr d}"
    unfolding parse_day_parts by blast
  then show "collect_days items days =
          Inr (days \<union> {d. \<exists>ev s ys ms ds y m. ev \<in> set items
                         \<and> event_date_str ev = Inr (Some s)
                         \<and> split_on 45 (take 10 s) = [ys, ms, ds]
                         \<and> py_int ys = Inr y \<and> py_int ms = Inr m \<and> py_int ds = Inr d})"
    by (simp add: collect_days_set [OF nn])
next
  assume "0 \<le> y \<and> y \<le> 9999 \<and> 0 \<le> m \<and> m \<le> 99 \<and> 0 \<le> d \<and> d \<le> 99"
  then show "parse_day (zero_pad 4 y @ ascii ''-'' @ zero_pad 2 m @ ascii ''-'' @ zero_pad 2 d @ rest)
          = Inr d"
    by (intro parse_day_iso) simp_all
next
  assume "length (filter (\<lambda>c. c = 45) (take 10 s)) \<noteq> 2"
  then show "parse_day s = Inl ValueError"
    by (rule parse_day_hyphens)
next
  assume "event_date_str ev = Inr None
        \<or> (\<exists>s e. event_date_str ev = Inr (Some s) \<and> parse_day s = Inl e)"
  then show "collect_days (before @ ev # after) days = collect_days (before @ after) days"
    by (rule collect_days_skip)
next
  assume "list_all (\<lambda>ev. event_start ev \<noteq> Null) before \<and> event_start ev = Null"
  then show "collect_days (before @ ev # after) days = Inl AttributeError"
    by (intro collect_days_null) simp_all
qed

text \<open>
  An event whose start text is \<^verbatim>\<open>tomorrow\<close>, which holds no \<^verbatim>\<open>-\<close>, between the events of
  5 and 31 March, is passed over, and the two events give the set of 5 and 31; the text
  \<^verbatim>\<open>2024-03-05\<close> followed by a time gives the day 5; an event with \<^verbatim>\<open>null\<close> for its start
  after the event of 5 March makes the function raise.
\<close>

theorem day_markers_witness:
  "(0 :: int) \<le> 2024 \<and> (2024 :: int) \<le> 9999 \<and> (0 :: int) \<le> 3 \<and> (3 :: int) \<le> 99
   \<and> (0 :: int) \<le> 5 \<and> (5 :: int) \<le> 99
   \<and> parse_day (zero_pad 4 2024 @ ascii ''-'' @ zero_pad 2 3 @ ascii ''-'' @ zero_pad 2 5
                   @ ascii ''T09:00:00Z'') = Inr 5
   \<and> length (filter (\<lambda>c. c = 45) (take 10 (ascii ''tomorrow''))) = 0
   \<and> event_date_str (day_event ''tomorrow'') = Inr (Some (ascii ''tomorrow''))
   \<and> parse_day (ascii ''tomorrow'') = Inl ValueError
   \<and> collect_days ([day_event ''2024-03-05''] @ day_event ''tomorrow'' # [day_event ''2024-03-31'']) {}
       = collect_days ([day_event ''2024-03-05''] @ [day_event ''2024-03-31'']) {}
   \<and> list_all (\<lambda>ev. event_start ev \<noteq> Null) [day_event ''2024-03-05'', day_event ''2024-03-31'']
   \<and> collect_days [day_event ''2024-03-05'', day_event ''2024-03-31''] {} = Inr {5, 31}
   \<and> event_start \<lparr>event_start = Null\<rparr> = Null
   \<and> collect_days ([day_event ''2024-03-05''] @ \<lparr>event_start = Null\<rparr> # [day_event ''2024-03-31'']) {}
       = Inl AttributeError"
proof -
  have ev: "event_date_str (day_event ''tomorrow'') = Inr (Some (ascii ''tomorrow''))"
    by (rule event_date_str_examples)
  have hy: "length (filter (\<lambda>c. c = 45) (take 10 (ascii ''tomorrow''))) = 0"
    by (simp add: ascii_def)
  have nn: "list_all (\<lambda>ev. event_start ev \<noteq> Null) [day_event ''2024-03-05'', day_event ''2024-03-31'']"
    "list_all (\<lambda>ev. event_start ev \<noteq> Null) [day_event ''2024-03-05'']"
    by (simp_all add: day_event_def)
  note inst = day_markers [of "[day_event ''2024-03-05'', day_event ''2024-03-31'']" "{}"
      2024 3 5 "ascii ''T09:00:00Z''" "ascii ''tomorrow''"
      "day_event ''tomorrow''" "[day_event ''2024-03-05'']" "[day_event ''2024-03-31'']"]
  note inst_null = day_markers [of "[]" "{}" 2024 3 5 "[]" "[]"
      "\<lparr>event_start = Null\<rparr>" "[day_event ''2024-03-05'']" "[day_event ''2024-03-31'']"]
  have iso: "parse_day (zero_pad 4 2024 @ ascii ''-'' @ zero_pad 2 3 @ ascii ''-'' @ zero_pad 2 5
                   @ ascii ''T09:00:00Z'') = Inr 5"
    using inst by simp
  have bad: "parse_day (ascii ''tomorrow'') = Inl ValueError"
    using inst hy by simp
  have skip: "collect_days ([day_event ''2024-03-05''] @ day_event ''tomorrow'' # [day_event ''2024-03-31'']) {}
       = collect_days ([day_event ''2024-03-05''] @ [day_event ''2024-03-31'']) {}"
    using inst ev bad by blast
  have two: "collect_days [day_event ''2024-03-05'', day_event ''2024-03-31''] {} = Inr {5, 31}"
    by (simp add: event_date_str_examples parse_day_examples insert_commute)
  have null: "collect_days ([day_event ''2024-03-05''] @ \<lparr>event_start = Null\<rparr> # [day_event ''2024-03-31'']) {}
       = Inl AttributeError"
    using inst_null nn(2) by simp
  from iso hy ev bad skip nn(1) two null show ?thesis by simp
qed

text \<open>
  Claim C7 as stated fails: the date portion \<^verbatim>\<open>2024-13-99\<close> is malformed, there being no
  month 13 and no day 99 (\<^verbatim>\<open>datetime.date\<close> refuses it), yet the event is not skipped:
  the marker 99 is added.
\<close>

theorem malformed_date_marked:
  "dt_date 2024 13 99 = Inl ValueError
   \<and> parse_day (ascii ''2024-13-99'') = Inr 99
   \<and> fetch_month_event_days (Some thirteenth_month_service) 2024 3 = Inr {99}"
  by (simp add: fetch_march_2024 thirteenth_month_service_def event_date_str_examples
      parse_day_examples dt_date_def fits_c_int_def)

end
